theory Spec2Isabelle
  imports Main "HOL-Library.AList"
begin

section \<open>Data model of the UTXO engine state\<close>

text \<open>
  The engine (\<^verbatim>\<open>makeUtxoEngineState\<close>) is asynchronous TypeScript. The model passes
  the state explicitly: an awaited call is a step from state to state, an exception is
  the \<open>Inl\<close> of a sum, and numbers are \<open>int\<close> (the code subtracts the gap limit
  from an address count and tests the sign of the difference). What other tasks write
  while \<^verbatim>\<open>setLookAhead\<close> is suspended at an \<^verbatim>\<open>await\<close> is part of the state, as a
  schedule of writes; the other operations are modelled as running in one piece.
\<close>

datatype CurrencyFormat = bip32 | bip44 | bip49 | bip84

datatype BIP43PurposeTypeEnum = Airbitz | Legacy | WrappedSegwit | Segwit

datatype ScriptTypeEnum = p2pkh | p2wpkhp2sh | p2wpkh

record AddressPath =
  format :: CurrencyFormat
  changeIndex :: int
  addressIndex :: int

record IAddress =
  scriptPubkey :: string
  path :: "AddressPath option"
  networkQueryVal :: int
  lastQuery :: int
  lastTouched :: int
  used :: bool
  balance :: string

datatype error =
    CannotSaveWithoutScriptPubkeyOrPath
  | AddressPathUnknown
  | AddressDataUnknown
  | UnknownAddressPath
  | TypeError
  | ExternalError string

text \<open>
  Isabelle record fields are global names, so the fields of the UTXO, transaction and
  indexer records carry a prefix: \<open>utxo_id\<close> is the field \<^verbatim>\<open>id\<close> of \<^verbatim>\<open>IUTXO\<close>,
  \<open>ptx_txid\<close> the \<^verbatim>\<open>txid\<close> of \<^verbatim>\<open>ProcessorTransaction\<close>, \<open>raw_txid\<close> the \<^verbatim>\<open>txid\<close> of the
  indexer's \<^verbatim>\<open>ITransaction\<close>, \<open>au_txid\<close> the \<^verbatim>\<open>txid\<close> of an indexer UTXO.
\<close>

record IUTXO =
  utxo_id :: string
  utxo_txid :: string
  utxo_vout :: nat
  utxo_value :: string
  utxo_scriptPubkey :: string
  utxo_script :: string
  utxo_redeemScript :: "string option"
  utxo_scriptType :: ScriptTypeEnum
  utxo_blockHeight :: int

record TxInput =
  in_txId :: string
  in_outputIndex :: "nat option"
  in_scriptPubkey :: string
  in_amount :: string

record TxOutput =
  out_index :: nat
  out_scriptPubkey :: string
  out_amount :: string

record ProcessorTransaction =
  ptx_txid :: string
  ptx_hex :: string
  ptx_blockHeight :: int
  ptx_date :: int
  ptx_fees :: string
  ptx_inputs :: "TxInput list"
  ptx_outputs :: "TxOutput list"
  ptx_ourIns :: "string list"
  ptx_ourOuts :: "string list"
  ptx_ourAmount :: string

subsection \<open>The processor (persistent store)\<close>

text \<open>
  Modelled from the spec: the module \<^verbatim>\<open>db/Processor\<close> is not among the sources. The
  spec gives its interface (\<^verbatim>\<open>fetchAddressByScriptPubkey\<close>,
  \<^verbatim>\<open>fetchAddressCountFromPathPartition\<close>, \<^verbatim>\<open>fetchScriptPubkeyByPath\<close>,
  \<^verbatim>\<open>saveAddress\<close>, \<^verbatim>\<open>updateAddressByScriptPubkey\<close>, \<^verbatim>\<open>fetchTransaction\<close>,
  \<^verbatim>\<open>saveTransaction\<close>, \<^verbatim>\<open>fetchUtxosByScriptPubkey\<close>, \<^verbatim>\<open>saveUtxo\<close>, \<^verbatim>\<open>removeUtxo\<close>) and
  says that address records are keyed by scriptPubkey and indexed a second time by
  (format, changeIndex), so that the current maximum addressIndex + 1 of a branch (the
  address count) is a direct query, and that a UTXO record is keyed by its id, with at
  most one record per id. An update of a scriptPubkey that has no record changes
  nothing.
\<close>

record Processor =
  addressByScriptPubkey :: "string \<rightharpoonup> IAddress"
  scriptPubkeyByPath :: "AddressPath \<rightharpoonup> string"
  addressCountByPartition :: "CurrencyFormat \<times> int \<Rightarrow> int"
  transactionByTxid :: "string \<rightharpoonup> ProcessorTransaction"
  utxos :: "IUTXO list"

definition emptyProcessor :: Processor where
  "emptyProcessor =
     \<lparr> addressByScriptPubkey = Map.empty,
       scriptPubkeyByPath = Map.empty,
       addressCountByPartition = (\<lambda>_. 0),
       transactionByTxid = Map.empty,
       utxos = [] \<rparr>"

definition fetchAddressByScriptPubkey :: "Processor \<Rightarrow> string \<Rightarrow> IAddress option" where
  "fetchAddressByScriptPubkey p sp = addressByScriptPubkey p sp"

definition fetchScriptPubkeyByPath :: "Processor \<Rightarrow> AddressPath \<Rightarrow> string option" where
  "fetchScriptPubkeyByPath p pth = scriptPubkeyByPath p pth"

definition fetchAddressCountFromPathPartition ::
    "Processor \<Rightarrow> CurrencyFormat \<Rightarrow> int \<Rightarrow> int" where
  "fetchAddressCountFromPathPartition p fmt branch = addressCountByPartition p (fmt, branch)"

definition saveAddress :: "Processor \<Rightarrow> IAddress \<Rightarrow> Processor" where
  "saveAddress p a =
     (let p1 = p\<lparr> addressByScriptPubkey := (addressByScriptPubkey p)(scriptPubkey a \<mapsto> a) \<rparr>
      in case path a of
           None \<Rightarrow> p1
         | Some pth \<Rightarrow>
             p1\<lparr> scriptPubkeyByPath := (scriptPubkeyByPath p)(pth \<mapsto> scriptPubkey a),
                 addressCountByPartition :=
                   (addressCountByPartition p)
                     ((format pth, changeIndex pth) :=
                        max (addressCountByPartition p (format pth, changeIndex pth))
                            (addressIndex pth + 1)) \<rparr>)"

definition updateAddressByScriptPubkey ::
    "Processor \<Rightarrow> string \<Rightarrow> string option \<Rightarrow> bool option \<Rightarrow> Processor" where
  "updateAddressByScriptPubkey p sp newBalance newUsed =
     (case addressByScriptPubkey p sp of
        None \<Rightarrow> p
      | Some a \<Rightarrow>
          p\<lparr> addressByScriptPubkey := (addressByScriptPubkey p)(sp \<mapsto>
               a\<lparr> balance := (case newBalance of None \<Rightarrow> balance a | Some b \<Rightarrow> b),
                  used := (case newUsed of None \<Rightarrow> used a | Some u \<Rightarrow> u) \<rparr>) \<rparr>)"


definition saveTransaction :: "Processor \<Rightarrow> ProcessorTransaction \<Rightarrow> Processor" where
  "saveTransaction p tx = p\<lparr> transactionByTxid := (transactionByTxid p)(ptx_txid tx \<mapsto> tx) \<rparr>"




subsection \<open>The engine state\<close>

text \<open>
  The events the engine emits. \<^verbatim>\<open>ADDRESSES_CHECKED\<close> carries the ratio
  \<^verbatim>\<open>processedCount / totalCount\<close>, a floating-point number in the source: the model
  keeps numerator and denominator. An \<^verbatim>\<open>EdgeTxidMap\<close> is a map from txid to date.
\<close>

datatype EmitterEvent =
    ADDRESSES_CHECKED int int
  | BALANCE_CHANGED string string
  | TXIDS_CHANGED "string \<rightharpoonup> int"

record ITransactionInput =
  vin_txid :: string
  vin_vout :: "nat option"
  vin_value :: string
  vin_addresses :: "string list"

record ITransactionOutput =
  vout_n :: nat
  vout_value :: string
  vout_addresses :: "string list"
  vout_hex :: "string option"

record ITransaction =
  raw_txid :: string
  raw_hex :: string
  raw_blockHeight :: int
  raw_blockTime :: int
  raw_fees :: string
  raw_vin :: "ITransactionInput list"
  raw_vout :: "ITransactionOutput list"

text \<open>
  The observable effects of a run, in the order they happen: an event emitted, a page
  of the transaction history of an address fetched from the indexer (address, page
  number, the transactions of the page), a subscription \<^verbatim>\<open>blockBook.watchAddresses\<close>
  with its snapshot of the watch set, a \<^verbatim>\<open>processAddress\<close> handed to
  \<^verbatim>\<open>mutex.runExclusive\<close> (it runs once the mutex is free again and is not awaited),
  and an invocation of \<^verbatim>\<open>setLookAhead\<close> (format, processNewAddresses).
\<close>

datatype Effect =
    Emit EmitterEvent
  | FetchedPage string int "ITransaction list"
  | WatchAddresses "string list"
  | Dispatched string
  | SetLookAheadCalled CurrencyFormat bool

text \<open>
  The engine is asynchronous: at an \<^verbatim>\<open>await\<close> a call is suspended and other tasks run.
  The engine's mutex is held by \<^verbatim>\<open>setLookAhead\<close> only; \<^verbatim>\<open>markAddressUsed\<close> and
  \<^verbatim>\<open>processAddress\<close> write the address records outside it, both through
  \<^verbatim>\<open>processor.updateAddressByScriptPubkey\<close>. A \<open>StoreWrite\<close> is one such write of
  another task: the script pubkey, the new balance and the new used flag, each if given.
\<close>

datatype StoreWrite = UpdateAddressByScriptPubkey string "string option" "bool option"

definition applyStoreWrite :: "StoreWrite \<Rightarrow> Processor \<Rightarrow> Processor" where
  "applyStoreWrite w p =
     (case w of UpdateAddressByScriptPubkey sp newBalance newUsed \<Rightarrow>
        updateAddressByScriptPubkey p sp newBalance newUsed)"

text \<open>
  Everything the engine mutates: the store, the watch set \<^verbatim>\<open>addressesToWatch\<close> (a
  JavaScript \<^verbatim>\<open>Set\<close>, kept in insertion order), the counter \<^verbatim>\<open>processedCount\<close> of
  \<^verbatim>\<open>start\<close>, the trace of effects, and \<open>probes\<close>, an instrumentation counter of the
  calls of \<^verbatim>\<open>fetchAddressDataByPath\<close> (one address-record probe each). \<open>others\<close> is
  the schedule of the other tasks: the writes they make at the first suspension point
  to come, at the second, and so on; the empty schedule is a run that no other task
  interleaves with.
\<close>

record EngineState =
  processor :: Processor
  probes :: nat
  addressesToWatch :: "string list"
  processedCount :: int
  trace :: "Effect list"
  others :: "StoreWrite list list"

definition initialState :: "Processor \<Rightarrow> EngineState" where
  "initialState p =
     \<lparr> processor = p, probes = 0, addressesToWatch = [], processedCount = 0, trace = [],
       others = [] \<rparr>"

text \<open>A suspension point: the writes the other tasks make while the call is suspended
  reach the store before the call goes on.\<close>

definition suspend :: "EngineState \<Rightarrow> EngineState" where
  "suspend s =
     (case others s of
        [] \<Rightarrow> s
      | writes # later \<Rightarrow>
          s\<lparr> processor := fold applyStoreWrite writes (processor s), others := later \<rparr>)"

type_synonym 'a result = "(error + 'a) \<times> EngineState"

section \<open>Fresh-index finder\<close>

text \<open>JavaScript's \<^verbatim>\<open>!scriptPubkey\<close> on a \<^verbatim>\<open>string | undefined\<close>: undefined and the empty
  string are falsy.\<close>

definition falsy :: "string option \<Rightarrow> bool" where
  "falsy v = (case v of None \<Rightarrow> True | Some str \<Rightarrow> str = [])"

definition fetchAddressDataByPath :: "AddressPath \<Rightarrow> EngineState \<Rightarrow> IAddress result" where
  "fetchAddressDataByPath pth s =
     (let s1 = s\<lparr> probes := probes s + 1 \<rparr>
      in case fetchScriptPubkeyByPath (processor s) pth of
           None \<Rightarrow> (Inl AddressPathUnknown, s1)
         | Some sp \<Rightarrow>
             if sp = [] then (Inl AddressPathUnknown, s1)
             else (case fetchAddressByScriptPubkey (processor s) sp of
                     None \<Rightarrow> (Inl AddressDataUnknown, s1)
                   | Some addressData \<Rightarrow> (Inr addressData, s1)))"

text \<open>The \<open>used\<close> flag a probe of a path reads, or the error it raises: the pure
  content of \<open>fetchAddressDataByPath\<close>, used to state what the scan depends on.\<close>

definition usedByPath :: "Processor \<Rightarrow> AddressPath \<Rightarrow> error + bool" where
  "usedByPath p pth =
     (case fetchScriptPubkeyByPath p pth of
        None \<Rightarrow> Inl AddressPathUnknown
      | Some sp \<Rightarrow>
          if sp = [] then Inl AddressPathUnknown
          else (case fetchAddressByScriptPubkey p sp of
                  None \<Rightarrow> Inl AddressDataUnknown
                | Some addressData \<Rightarrow> Inr (used addressData)))"

definition usedAt :: "Processor \<Rightarrow> AddressPath \<Rightarrow> int \<Rightarrow> error + bool" where
  "usedAt p pth i = usedByPath p (pth\<lparr> addressIndex := i \<rparr>)"

definition findFreshIndex_measure :: "AddressPath \<times> EngineState \<Rightarrow> nat" where
  "findFreshIndex_measure = (\<lambda>(pth, s).
     (let p = processor s;
          n = fetchAddressCountFromPathPartition p (format pth) (changeIndex pth);
          i = addressIndex pth
      in if i \<ge> n then 0
         else case usedAt p pth i of
                Inl e \<Rightarrow> 0
              | Inr True \<Rightarrow> 1 + nat (n - i)
              | Inr False \<Rightarrow>
                  if i \<le> 1 then 0
                  else (case usedAt p pth (i - 1) of
                          Inr False \<Rightarrow> nat (n + 2 + i)
                        | _ \<Rightarrow> 0)))"

function findFreshIndex :: "AddressPath \<Rightarrow> EngineState \<Rightarrow> int result" where
  "findFreshIndex pth s =
     (let addressCount =
            fetchAddressCountFromPathPartition (processor s) (format pth) (changeIndex pth)
      in if addressIndex pth \<ge> addressCount then (Inr (addressIndex pth), s)
         else case fetchAddressDataByPath pth s of
                (Inl e, s1) \<Rightarrow> (Inl e, s1)
              | (Inr addressData, s1) \<Rightarrow>
                  if \<not> used addressData \<and> addressIndex pth > 0 then
                    (case fetchAddressDataByPath (pth\<lparr> addressIndex := addressIndex pth - 1 \<rparr>) s1 of
                       (Inl e, s2) \<Rightarrow> (Inl e, s2)
                     | (Inr prevAddressData, s2) \<Rightarrow>
                         if used prevAddressData then (Inr (addressIndex pth), s2)
                         else if addressIndex pth > 1 then
                           findFreshIndex (pth\<lparr> addressIndex := addressIndex pth - 2 \<rparr>) s2
                         else (Inr (addressIndex pth), s2))
                  else if used addressData then
                    findFreshIndex (pth\<lparr> addressIndex := addressIndex pth + 1 \<rparr>) s1
                  else (Inr (addressIndex pth), s1))"
  by pat_completeness auto

lemma fetchAddressDataByPath_eq:
  "fetchAddressDataByPath pth s =
     (fst (fetchAddressDataByPath pth s), s\<lparr> probes := probes s + 1 \<rparr>)"
  by (simp add: fetchAddressDataByPath_def Let_def split: option.splits)

lemma fetchAddressDataByPath_used:
  "map_sum id used (fst (fetchAddressDataByPath pth s)) = usedByPath (processor s) pth"
  by (simp add: fetchAddressDataByPath_def usedByPath_def Let_def split: option.splits)

lemma fetchAddressDataByPath_Inr:
  assumes "fetchAddressDataByPath pth s = (Inr a, s1)"
  shows "usedAt (processor s) pth (addressIndex pth) = Inr (used a)"
    and "s1 = s\<lparr> probes := probes s + 1 \<rparr>"
proof -
  from assms fetchAddressDataByPath_used [of pth s]
  show "usedAt (processor s) pth (addressIndex pth) = Inr (used a)"
    by (simp add: usedAt_def)
  from assms fetchAddressDataByPath_eq [of pth s]
  show "s1 = s\<lparr> probes := probes s + 1 \<rparr>" by simp
qed

lemma usedAt_update [simp]:
  "usedAt p (pth\<lparr> addressIndex := j \<rparr>) i = usedAt p pth i"
  by (simp add: usedAt_def)

lemma findFreshIndex_measure_back:
  assumes "usedAt (processor s) pth (addressIndex pth) = Inr False"
    and "usedAt (processor s) pth (addressIndex pth - 1) = Inr False"
    and "addressIndex pth > 1"
    and "addressIndex pth < fetchAddressCountFromPathPartition (processor s) (format pth) (changeIndex pth)"
    and "processor s2 = processor s"
  shows "findFreshIndex_measure (pth\<lparr> addressIndex := addressIndex pth - 2 \<rparr>, s2)
           < findFreshIndex_measure (pth, s)"
  using assms
  by (auto simp: findFreshIndex_measure_def Let_def split: sum.splits bool.splits)

lemma findFreshIndex_measure_forth:
  assumes "usedAt (processor s) pth (addressIndex pth) = Inr True"
    and "addressIndex pth < fetchAddressCountFromPathPartition (processor s) (format pth) (changeIndex pth)"
    and "processor s1 = processor s"
  shows "findFreshIndex_measure (pth\<lparr> addressIndex := addressIndex pth + 1 \<rparr>, s1)
           < findFreshIndex_measure (pth, s)"
  using assms
  by (auto simp: findFreshIndex_measure_def Let_def split: sum.splits bool.splits)

termination findFreshIndex
proof (relation "measure findFreshIndex_measure", goal_cases)
  case 1
  show ?case by simp
next
  case (2 pth s n r s1 a r2 s2 b)
  from 2 have f1: "fetchAddressDataByPath pth s = (Inr a, s1)" by simp
  from 2 have f2: "fetchAddressDataByPath (pth\<lparr> addressIndex := addressIndex pth - 1 \<rparr>) s1 = (Inr b, s2)"
    by simp
  from fetchAddressDataByPath_Inr [OF f1] 2
  have a: "usedAt (processor s) pth (addressIndex pth) = Inr False"
    and s1: "processor s1 = processor s" by auto
  from fetchAddressDataByPath_Inr [OF f2] 2 s1
  have b: "usedAt (processor s) pth (addressIndex pth - 1) = Inr False"
    and s2: "processor s2 = processor s" by auto
  from findFreshIndex_measure_back [OF a b _ _ s2] 2
  show ?case by simp
next
  case (3 pth s n r s1 a)
  from 3 have f1: "fetchAddressDataByPath pth s = (Inr a, s1)" by simp
  from fetchAddressDataByPath_Inr [OF f1] 3
  have a: "usedAt (processor s) pth (addressIndex pth) = Inr True"
    and s1: "processor s1 = processor s" by auto
  from findFreshIndex_measure_forth [OF a _ s1] 3
  show ?case by simp
qed

declare findFreshIndex.simps [simp del]

record EngineCurrencyInfo =
  gapLimit :: int
  currencyCode :: string
  network :: string

definition getFreshIndex ::
    "EngineCurrencyInfo \<Rightarrow> CurrencyFormat \<Rightarrow> int \<Rightarrow> bool \<Rightarrow> EngineState \<Rightarrow> int result" where
  "getFreshIndex currencyInfo fmt chg findFlag s =
     (let addressCount = fetchAddressCountFromPathPartition (processor s) fmt chg;
          pth = \<lparr> format = fmt, changeIndex = chg,
                  addressIndex = addressCount - gapLimit currencyInfo \<rparr>
      in if addressIndex pth < 0 then (Inr 0, s)
         else if findFlag then findFreshIndex pth s
         else (Inr (addressIndex pth), s))"

text \<open>The branch \<open>(fmt, chg)\<close> holds address records at the contiguous indices
  \<open>[0, n)\<close>: its address count is \<open>n\<close> and a probe of each index below finds a record.\<close>

definition branchContiguous :: "Processor \<Rightarrow> CurrencyFormat \<Rightarrow> int \<Rightarrow> int \<Rightarrow> bool" where
  "branchContiguous p fmt chg n =
     (fetchAddressCountFromPathPartition p fmt chg = n \<and>
      (\<forall>i \<in> {0..<n}. isl (usedAt p \<lparr> format = fmt, changeIndex = chg, addressIndex = 0 \<rparr> i) = False))"

lemma findFreshIndex_unfold:
  "findFreshIndex pth s =
     (let p = processor s;
          n = fetchAddressCountFromPathPartition p (format pth) (changeIndex pth);
          i = addressIndex pth
      in if i \<ge> n then (Inr i, s)
         else case usedAt p pth i of
                Inl e \<Rightarrow> (Inl e, s\<lparr> probes := probes s + 1 \<rparr>)
              | Inr u \<Rightarrow>
                  if \<not> u \<and> i > 0 then
                    (case usedAt p pth (i - 1) of
                       Inl e \<Rightarrow> (Inl e, s\<lparr> probes := probes s + 2 \<rparr>)
                     | Inr v \<Rightarrow>
                         if v then (Inr i, s\<lparr> probes := probes s + 2 \<rparr>)
                         else if i > 1 then
                           findFreshIndex (pth\<lparr> addressIndex := i - 2 \<rparr>)
                             (s\<lparr> probes := probes s + 2 \<rparr>)
                         else (Inr i, s\<lparr> probes := probes s + 2 \<rparr>))
                  else if u then
                    findFreshIndex (pth\<lparr> addressIndex := i + 1 \<rparr>)
                      (s\<lparr> probes := probes s + 1 \<rparr>)
                  else (Inr i, s\<lparr> probes := probes s + 1 \<rparr>))"
  apply (subst findFreshIndex.simps)
  apply (simp add: Let_def fetchAddressDataByPath_def usedAt_def usedByPath_def
      split: option.splits)
  done

definition branchCount :: "EngineState \<Rightarrow> AddressPath \<Rightarrow> int" where
  "branchCount s pth =
     fetchAddressCountFromPathPartition (processor s) (format pth) (changeIndex pth)"

definition bump :: "nat \<Rightarrow> EngineState \<Rightarrow> EngineState" where
  "bump k s = s\<lparr> probes := probes s + k \<rparr>"

lemma bump_simps [simp]:
  "processor (bump k s) = processor s"
  "probes (bump k s) = probes s + k"
  "bump j (bump k s) = bump (k + j) s"
  "branchCount (bump k s) pth = branchCount s pth"
  by (simp_all add: bump_def branchCount_def)

lemma branchCount_update [simp]:
  "branchCount s (pth\<lparr> addressIndex := j \<rparr>) = branchCount s pth"
  by (simp add: branchCount_def)

lemma findFreshIndex_scan_induct [case_names step]:
  fixes P :: "AddressPath \<Rightarrow> EngineState \<Rightarrow> bool"
  assumes step: "\<And>pth s.
     (addressIndex pth < branchCount s pth \<Longrightarrow>
      usedAt (processor s) pth (addressIndex pth) = Inr False \<Longrightarrow>
      usedAt (processor s) pth (addressIndex pth - 1) = Inr False \<Longrightarrow>
      addressIndex pth > 1 \<Longrightarrow>
      P (pth\<lparr> addressIndex := addressIndex pth - 2 \<rparr>) (bump 2 s)) \<Longrightarrow>
     (addressIndex pth < branchCount s pth \<Longrightarrow>
      usedAt (processor s) pth (addressIndex pth) = Inr True \<Longrightarrow>
      P (pth\<lparr> addressIndex := addressIndex pth + 1 \<rparr>) (bump 1 s)) \<Longrightarrow>
     P pth s"
  shows "P pth s"
proof (induction "findFreshIndex_measure (pth, s)" arbitrary: pth s rule: less_induct)
  case less
  show ?case
  proof (rule step, goal_cases)
    case 1
    show ?case
      by (rule less)
        (rule findFreshIndex_measure_back [OF 1(2) 1(3) 1(4) 1(1) [unfolded branchCount_def]], simp)
  next
    case 2
    show ?case
      by (rule less)
        (rule findFreshIndex_measure_forth [OF 2(2) 2(1) [unfolded branchCount_def]], simp)
  qed
qed

lemma findFreshIndex_beyond:
  "branchCount s pth \<le> addressIndex pth \<Longrightarrow> findFreshIndex pth s = (Inr (addressIndex pth), s)"
  by (subst findFreshIndex_unfold) (simp add: branchCount_def)

lemma findFreshIndex_err:
  "addressIndex pth < branchCount s pth \<Longrightarrow>
   usedAt (processor s) pth (addressIndex pth) = Inl e \<Longrightarrow>
   findFreshIndex pth s = (Inl e, bump 1 s)"
  by (subst findFreshIndex_unfold) (simp add: branchCount_def bump_def)

lemma findFreshIndex_prev_err:
  "addressIndex pth < branchCount s pth \<Longrightarrow> 0 < addressIndex pth \<Longrightarrow>
   usedAt (processor s) pth (addressIndex pth) = Inr False \<Longrightarrow>
   usedAt (processor s) pth (addressIndex pth - 1) = Inl e \<Longrightarrow>
   findFreshIndex pth s = (Inl e, bump 2 s)"
  by (subst findFreshIndex_unfold) (simp add: branchCount_def bump_def)

lemma findFreshIndex_prev_used:
  "addressIndex pth < branchCount s pth \<Longrightarrow> 0 < addressIndex pth \<Longrightarrow>
   usedAt (processor s) pth (addressIndex pth) = Inr False \<Longrightarrow>
   usedAt (processor s) pth (addressIndex pth - 1) = Inr True \<Longrightarrow>
   findFreshIndex pth s = (Inr (addressIndex pth), bump 2 s)"
  by (subst findFreshIndex_unfold) (simp add: branchCount_def bump_def)

lemma findFreshIndex_back:
  "addressIndex pth < branchCount s pth \<Longrightarrow> 1 < addressIndex pth \<Longrightarrow>
   usedAt (processor s) pth (addressIndex pth) = Inr False \<Longrightarrow>
   usedAt (processor s) pth (addressIndex pth - 1) = Inr False \<Longrightarrow>
   findFreshIndex pth s =
     findFreshIndex (pth\<lparr> addressIndex := addressIndex pth - 2 \<rparr>) (bump 2 s)"
  by (subst findFreshIndex_unfold) (simp add: branchCount_def bump_def)

lemma findFreshIndex_one:
  "addressIndex pth < branchCount s pth \<Longrightarrow> addressIndex pth = 1 \<Longrightarrow>
   usedAt (processor s) pth 1 = Inr False \<Longrightarrow>
   usedAt (processor s) pth 0 = Inr False \<Longrightarrow>
   findFreshIndex pth s = (Inr 1, bump 2 s)"
  by (subst findFreshIndex_unfold) (simp add: branchCount_def bump_def)

lemma findFreshIndex_forth:
  "addressIndex pth < branchCount s pth \<Longrightarrow>
   usedAt (processor s) pth (addressIndex pth) = Inr True \<Longrightarrow>
   findFreshIndex pth s =
     findFreshIndex (pth\<lparr> addressIndex := addressIndex pth + 1 \<rparr>) (bump 1 s)"
  by (subst findFreshIndex_unfold) (simp add: branchCount_def bump_def)

lemma findFreshIndex_first:
  "addressIndex pth < branchCount s pth \<Longrightarrow> addressIndex pth \<le> 0 \<Longrightarrow>
   usedAt (processor s) pth (addressIndex pth) = Inr False \<Longrightarrow>
   findFreshIndex pth s = (Inr (addressIndex pth), bump 1 s)"
  by (subst findFreshIndex_unfold) (simp add: branchCount_def bump_def)

lemma findFreshIndex_scan_cases:
  fixes pth :: AddressPath and s :: EngineState
  obtains
    (beyond) "branchCount s pth \<le> addressIndex pth"
  | (err) e where "addressIndex pth < branchCount s pth"
      "usedAt (processor s) pth (addressIndex pth) = Inl e"
  | (prev_err) e where "addressIndex pth < branchCount s pth" "0 < addressIndex pth"
      "usedAt (processor s) pth (addressIndex pth) = Inr False"
      "usedAt (processor s) pth (addressIndex pth - 1) = Inl e"
  | (prev_used) "addressIndex pth < branchCount s pth" "0 < addressIndex pth"
      "usedAt (processor s) pth (addressIndex pth) = Inr False"
      "usedAt (processor s) pth (addressIndex pth - 1) = Inr True"
  | (backward) "addressIndex pth < branchCount s pth" "1 < addressIndex pth"
      "usedAt (processor s) pth (addressIndex pth) = Inr False"
      "usedAt (processor s) pth (addressIndex pth - 1) = Inr False"
  | (one) "addressIndex pth < branchCount s pth" "addressIndex pth = 1"
      "usedAt (processor s) pth 1 = Inr False"
      "usedAt (processor s) pth 0 = Inr False"
  | (forward) "addressIndex pth < branchCount s pth"
      "usedAt (processor s) pth (addressIndex pth) = Inr True"
  | (first) "addressIndex pth < branchCount s pth" "addressIndex pth \<le> 0"
      "usedAt (processor s) pth (addressIndex pth) = Inr False"
proof (cases "branchCount s pth \<le> addressIndex pth")
  case True
  then show ?thesis by (rule beyond)
next
  case inside: False
  show ?thesis
  proof (cases "usedAt (processor s) pth (addressIndex pth)")
    case (Inl e)
    with inside show ?thesis by (intro err) auto
  next
    case (Inr u)
    show ?thesis
    proof (cases u)
      case True
      with inside Inr show ?thesis by (intro forward) auto
    next
      case unused: False
      show ?thesis
      proof (cases "addressIndex pth \<le> 0")
        case True
        with inside Inr unused show ?thesis by (intro first) auto
      next
        case pos: False
        show ?thesis
        proof (cases "usedAt (processor s) pth (addressIndex pth - 1)")
          case (Inl e)
          with inside Inr unused pos show ?thesis by (intro prev_err) auto
        next
          case prev: (Inr v)
          show ?thesis
          proof (cases v)
            case True
            with inside Inr unused pos prev show ?thesis by (intro prev_used) auto
          next
            case False
            show ?thesis
            proof (cases "addressIndex pth = 1")
              case True
              with inside Inr unused prev False show ?thesis by (intro one) auto
            next
              case False
              with inside Inr unused pos prev \<open>\<not> v\<close> show ?thesis by (intro backward) auto
            qed
          qed
        qed
      qed
    qed
  qed
qed

lemma findFreshIndex_state: "\<exists>k. snd (findFreshIndex pth s) = bump k s"
proof (induction pth s rule: findFreshIndex_scan_induct)
  case (step pth s)
  have z: "s = bump 0 s" by (simp add: bump_def)
  show ?case
  proof (cases s pth rule: findFreshIndex_scan_cases)
    case beyond
    with z show ?thesis by (metis findFreshIndex_beyond snd_conv)
  next
    case (err e)
    then show ?thesis by (metis findFreshIndex_err snd_conv)
  next
    case (prev_err e)
    then show ?thesis by (metis findFreshIndex_prev_err snd_conv)
  next
    case prev_used
    then show ?thesis by (metis findFreshIndex_prev_used snd_conv)
  next
    case backward
    from step(1) [OF backward(1,3,4,2)]
    obtain k where "snd (findFreshIndex (pth\<lparr> addressIndex := addressIndex pth - 2 \<rparr>) (bump 2 s)) = bump k (bump 2 s)" ..
    with findFreshIndex_back [OF backward] show ?thesis by (metis bump_simps(3))
  next
    case one
    then show ?thesis by (metis findFreshIndex_one snd_conv)
  next
    case forward
    from step(2) [OF forward]
    obtain k where "snd (findFreshIndex (pth\<lparr> addressIndex := addressIndex pth + 1 \<rparr>) (bump 1 s)) = bump k (bump 1 s)" ..
    with findFreshIndex_forth [OF forward] show ?thesis by (metis bump_simps(3))
  next
    case first
    then show ?thesis by (metis findFreshIndex_first snd_conv)
  qed
qed

lemma findFreshIndex_agree:
  assumes "branchCount s' pth = branchCount s pth"
    and "\<And>i. usedAt (processor s') pth i = usedAt (processor s) pth i"
  shows "fst (findFreshIndex pth s') = fst (findFreshIndex pth s)"
  using assms
proof (induction pth s arbitrary: s' rule: findFreshIndex_scan_induct)
  case (step pth s)
  note cnt = step.prems(1) and view = step.prems(2)
  show ?case
  proof (cases s pth rule: findFreshIndex_scan_cases)
    case beyond
    then show ?thesis
      using cnt by (simp add: findFreshIndex_beyond)
  next
    case (err e)
    then show ?thesis
      using cnt view by (simp add: findFreshIndex_err)
  next
    case (prev_err e)
    then show ?thesis
      using cnt view by (simp add: findFreshIndex_prev_err)
  next
    case prev_used
    then show ?thesis
      using cnt view by (simp add: findFreshIndex_prev_used)
  next
    case backward
    have "fst (findFreshIndex (pth\<lparr> addressIndex := addressIndex pth - 2 \<rparr>) (bump 2 s')) =
          fst (findFreshIndex (pth\<lparr> addressIndex := addressIndex pth - 2 \<rparr>) (bump 2 s))"
      using cnt view by (intro step.IH(1) backward) simp_all
    then show ?thesis
      using backward cnt view by (simp add: findFreshIndex_back)
  next
    case one
    then show ?thesis
      using cnt view by (simp add: findFreshIndex_one)
  next
    case forward
    have "fst (findFreshIndex (pth\<lparr> addressIndex := addressIndex pth + 1 \<rparr>) (bump 1 s')) =
          fst (findFreshIndex (pth\<lparr> addressIndex := addressIndex pth + 1 \<rparr>) (bump 1 s))"
      using cnt view by (intro step.IH(2) forward) simp_all
    then show ?thesis
      using forward cnt view by (simp add: findFreshIndex_forth)
  next
    case first
    then show ?thesis
      using cnt view by (simp add: findFreshIndex_first)
  qed
qed

text \<open>Number of probes: bound.\<close>

lemma findFreshIndex_probes_aux:
  assumes "\<forall>i \<in> {0..<branchCount s pth}. isl (usedAt (processor s) pth i) = False"
    and "0 \<le> addressIndex pth"
  shows "probes (snd (findFreshIndex pth s)) \<le> probes s +
     (if branchCount s pth \<le> addressIndex pth then 0
      else if usedAt (processor s) pth (addressIndex pth) = Inr True then
        (if addressIndex pth + 1 < branchCount s pth \<and>
            usedAt (processor s) pth (addressIndex pth + 1) = Inr False then 3
         else nat (branchCount s pth - addressIndex pth) + 1)
      else nat (addressIndex pth) + 3)"
  using assms
proof (induction pth s rule: findFreshIndex_scan_induct)
  case (step pth s)
  note cont = step.prems(1) and nonneg = step.prems(2)
  show ?case
  proof (cases s pth rule: findFreshIndex_scan_cases)
    case beyond
    then show ?thesis by (simp add: findFreshIndex_beyond)
  next
    case (err e)
    then show ?thesis using cont nonneg by (simp add: findFreshIndex_err)
  next
    case (prev_err e)
    then show ?thesis using cont nonneg by (simp add: findFreshIndex_prev_err)
  next
    case prev_used
    then show ?thesis by (simp add: findFreshIndex_prev_used)
  next
    case backward
    let ?q = "pth\<lparr> addressIndex := addressIndex pth - 2 \<rparr>"
    have "probes (snd (findFreshIndex ?q (bump 2 s))) \<le> probes (bump 2 s) +
       (if branchCount (bump 2 s) ?q \<le> addressIndex ?q then 0
        else if usedAt (processor (bump 2 s)) ?q (addressIndex ?q) = Inr True then
          (if addressIndex ?q + 1 < branchCount (bump 2 s) ?q \<and>
              usedAt (processor (bump 2 s)) ?q (addressIndex ?q + 1) = Inr False then 3
           else nat (branchCount (bump 2 s) ?q - addressIndex ?q) + 1)
        else nat (addressIndex ?q) + 3)"
      using cont backward by (intro step.IH(1)) simp_all
    then show ?thesis
      using backward by (simp add: findFreshIndex_back split: if_splits)
  next
    case one
    then show ?thesis by (simp add: findFreshIndex_one)
  next
    case forward
    let ?q = "pth\<lparr> addressIndex := addressIndex pth + 1 \<rparr>"
    show ?thesis
    proof (cases "addressIndex pth + 1 < branchCount s pth \<and>
        usedAt (processor s) pth (addressIndex pth + 1) = Inr False")
      case True
      with forward nonneg
      have "findFreshIndex ?q (bump 1 s) = (Inr (addressIndex ?q), bump 2 (bump 1 s))"
        by (intro findFreshIndex_prev_used) simp_all
      with forward True show ?thesis by (simp add: findFreshIndex_forth)
    next
      case False
      have "probes (snd (findFreshIndex ?q (bump 1 s))) \<le> probes (bump 1 s) +
         (if branchCount (bump 1 s) ?q \<le> addressIndex ?q then 0
          else if usedAt (processor (bump 1 s)) ?q (addressIndex ?q) = Inr True then
            (if addressIndex ?q + 1 < branchCount (bump 1 s) ?q \<and>
                usedAt (processor (bump 1 s)) ?q (addressIndex ?q + 1) = Inr False then 3
             else nat (branchCount (bump 1 s) ?q - addressIndex ?q) + 1)
          else nat (addressIndex ?q) + 3)"
        using cont nonneg forward by (intro step.IH(2)) simp_all
      moreover have "usedAt (processor s) pth (addressIndex pth + 1) = Inr True"
        if "addressIndex pth + 1 < branchCount s pth"
      proof -
        from that nonneg have "addressIndex pth + 1 \<in> {0..<branchCount s pth}" by simp
        with cont have "isl (usedAt (processor s) pth (addressIndex pth + 1)) = False" by blast
        with False that show ?thesis
          by (cases "usedAt (processor s) pth (addressIndex pth + 1)") auto
      qed
      ultimately show ?thesis
        using forward False by (simp add: findFreshIndex_forth split: if_splits)
    qed
  next
    case first
    then show ?thesis by (simp add: findFreshIndex_first)
  qed
qed

lemma usedAt_update_fun [simp]:
  "usedAt p (pth\<lparr> addressIndex := j \<rparr>) = usedAt p pth"
  by (rule ext) simp

text \<open>What the scan started at index \<open>i\<close> returns, over the view \<open>u\<close> of the \<open>used\<close>
  flags of a branch of \<open>n\<close> records: from an unused record it walks down to the start of
  the run of unused records around \<open>i\<close> (or stops at index 1 when it steps down from
  an odd index and index 0 is also unused); from a used record it walks up to the first
  index that is not used.\<close>

definition scanOutcome :: "(int \<Rightarrow> error + bool) \<Rightarrow> int \<Rightarrow> int \<Rightarrow> int \<Rightarrow> bool" where
  "scanOutcome u n i r =
     (if i < n \<and> u i = Inr False
      then 0 \<le> r \<and> r \<le> i \<and> (\<forall>j \<in> {r..i}. u j = Inr False) \<and>
           (r = 0 \<or> u (r - 1) = Inr True \<or> (r = 1 \<and> odd i))
      else i \<le> r \<and> r \<le> max i n \<and> (\<forall>j \<in> {i..<r}. u j = Inr True) \<and>
           (n \<le> r \<or> u r = Inr False))"

lemma scanOutcome_beyond: "n \<le> i \<Longrightarrow> scanOutcome u n i i"
  by (simp add: scanOutcome_def)

lemma scanOutcome_prev_used:
  "i < n \<Longrightarrow> 0 < i \<Longrightarrow> u i = Inr False \<Longrightarrow> u (i - 1) = Inr True \<Longrightarrow> scanOutcome u n i i"
  by (simp add: scanOutcome_def)

lemma scanOutcome_one:
  "1 < n \<Longrightarrow> u 1 = Inr False \<Longrightarrow> scanOutcome u n 1 1"
  by (simp add: scanOutcome_def)

lemma scanOutcome_first:
  "0 < n \<Longrightarrow> u 0 = Inr False \<Longrightarrow> scanOutcome u n 0 0"
  by (simp add: scanOutcome_def)

lemma scanOutcome_backward:
  assumes i: "i < n" "1 < i" and ui: "u i = Inr False" and up: "u (i - 1) = Inr False"
    and known: "u (i - 2) = Inr True \<or> u (i - 2) = Inr False"
    and rec: "scanOutcome u n (i - 2) r"
  shows "scanOutcome u n i r"
proof (cases "u (i - 2) = Inr False")
  case True
  with rec i have a: "0 \<le> r" "r \<le> i - 2" "\<forall>j \<in> {r..i - 2}. u j = Inr False"
    "r = 0 \<or> u (r - 1) = Inr True \<or> (r = 1 \<and> odd i)"
    by (simp_all add: scanOutcome_def)
  have "u j = Inr False" if "j \<in> {r..i}" for j
  proof -
    from that consider "j \<in> {r..i - 2}" | "j = i - 1" | "j = i" by fastforce
    then show ?thesis using a(3) ui up by cases auto
  qed
  with a i ui show ?thesis by (simp add: scanOutcome_def)
next
  case False
  with known have u2: "u (i - 2) = Inr True" by simp
  from False rec i have b: "i - 2 \<le> r" "r \<le> n" "\<forall>j \<in> {i - 2..<r}. u j = Inr True"
    "n \<le> r \<or> u r = Inr False"
    by (simp_all add: scanOutcome_def)
  have "r = i - 1"
  proof (rule ccontr)
    assume ne: "r \<noteq> i - 1"
    show False
    proof (cases "r = i - 2")
      case True
      with b(4) u2 i show False by auto
    next
      case False
      with ne b(1) have "i - 1 \<in> {i - 2..<r}" by simp
      with b(3) up show False by auto
    qed
  qed
  moreover have "u j = Inr False" if "j \<in> {i - 1..i}" for j
  proof -
    from that have "j = i - 1 \<or> j = i" by auto
    with ui up show ?thesis by auto
  qed
  ultimately show ?thesis using i ui u2 by (simp add: scanOutcome_def)
qed

lemma scanOutcome_forward:
  assumes i: "i < n" and ui: "u i = Inr True"
    and known: "i + 1 < n \<Longrightarrow> u (i + 1) = Inr True \<or> u (i + 1) = Inr False"
    and rec: "scanOutcome u n (i + 1) r"
  shows "scanOutcome u n i r"
proof (cases "i + 1 < n \<and> u (i + 1) = Inr False")
  case True
  with rec have a: "r \<le> i + 1" "\<forall>j \<in> {r..i + 1}. u j = Inr False"
    by (simp_all add: scanOutcome_def)
  have "r = i + 1"
  proof (rule ccontr)
    assume "r \<noteq> i + 1"
    with a(1) have "i \<in> {r..i + 1}" by simp
    with a(2) ui show False by auto
  qed
  moreover have "u j = Inr True" if "j \<in> {i..<i + 1}" for j
  proof -
    from that have "j = i" by auto
    with ui show ?thesis by simp
  qed
  ultimately show ?thesis using i ui True by (simp add: scanOutcome_def)
next
  case False
  with rec have "i + 1 \<le> r \<and> r \<le> max (i + 1) n \<and> (\<forall>j \<in> {i + 1..<r}. u j = Inr True) \<and>
    (n \<le> r \<or> u r = Inr False)"
    by (simp add: scanOutcome_def)
  with i have b: "i + 1 \<le> r" "r \<le> n" "\<forall>j \<in> {i + 1..<r}. u j = Inr True"
    "n \<le> r \<or> u r = Inr False"
    by simp_all
  have "u j = Inr True" if "j \<in> {i..<r}" for j
  proof -
    from that consider "j = i" | "j \<in> {i + 1..<r}" by fastforce
    then show ?thesis using b(3) ui by cases auto
  qed
  with i ui b show ?thesis by (simp add: scanOutcome_def)
qed

lemma findFreshIndex_scanOutcome:
  assumes "\<forall>i \<in> {0..<branchCount s pth}. isl (usedAt (processor s) pth i) = False"
    and "0 \<le> addressIndex pth"
  shows "\<exists>r. fst (findFreshIndex pth s) = Inr r \<and>
     scanOutcome (usedAt (processor s) pth) (branchCount s pth) (addressIndex pth) r"
  using assms
proof (induction pth s rule: findFreshIndex_scan_induct)
  case (step pth s)
  note cont = step.prems(1) and nonneg = step.prems(2)
  let ?u = "usedAt (processor s) pth" and ?n = "branchCount s pth" and ?i = "addressIndex pth"
  have known: "?u j = Inr True \<or> ?u j = Inr False" if "0 \<le> j" "j < ?n" for j
  proof -
    from that have "j \<in> {0..<?n}" by simp
    with cont have "isl (?u j) = False" by blast
    then show ?thesis by (cases "?u j") auto
  qed
  show ?case
  proof (cases s pth rule: findFreshIndex_scan_cases)
    case beyond
    then show ?thesis by (simp add: findFreshIndex_beyond scanOutcome_beyond)
  next
    case (err e)
    with known [of ?i] nonneg show ?thesis by simp
  next
    case (prev_err e)
    with known [of "?i - 1"] show ?thesis by simp
  next
    case prev_used
    then show ?thesis by (simp add: findFreshIndex_prev_used scanOutcome_prev_used)
  next
    case backward
    have "\<exists>r. fst (findFreshIndex (pth\<lparr> addressIndex := ?i - 2 \<rparr>) (bump 2 s)) = Inr r \<and>
        scanOutcome (usedAt (processor (bump 2 s)) (pth\<lparr> addressIndex := ?i - 2 \<rparr>))
          (branchCount (bump 2 s) (pth\<lparr> addressIndex := ?i - 2 \<rparr>))
          (addressIndex (pth\<lparr> addressIndex := ?i - 2 \<rparr>)) r"
      using cont backward by (intro step.IH(1)) simp_all
    then obtain r where r: "fst (findFreshIndex (pth\<lparr> addressIndex := ?i - 2 \<rparr>) (bump 2 s)) = Inr r"
      and rec: "scanOutcome ?u ?n (?i - 2) r" by auto
    from backward known [of "?i - 2"]
    have "scanOutcome ?u ?n ?i r" by (intro scanOutcome_backward [OF _ _ _ _ _ rec]) simp_all
    with r backward show ?thesis by (simp add: findFreshIndex_back)
  next
    case one
    then show ?thesis by (simp add: findFreshIndex_one scanOutcome_one)
  next
    case forward
    have "\<exists>r. fst (findFreshIndex (pth\<lparr> addressIndex := ?i + 1 \<rparr>) (bump 1 s)) = Inr r \<and>
        scanOutcome (usedAt (processor (bump 1 s)) (pth\<lparr> addressIndex := ?i + 1 \<rparr>))
          (branchCount (bump 1 s) (pth\<lparr> addressIndex := ?i + 1 \<rparr>))
          (addressIndex (pth\<lparr> addressIndex := ?i + 1 \<rparr>)) r"
      using cont nonneg forward by (intro step.IH(2)) simp_all
    then obtain r where r: "fst (findFreshIndex (pth\<lparr> addressIndex := ?i + 1 \<rparr>) (bump 1 s)) = Inr r"
      and rec: "scanOutcome ?u ?n (?i + 1) r" by auto
    from forward nonneg known [of "?i + 1"]
    have "scanOutcome ?u ?n ?i r" by (intro scanOutcome_forward [OF _ _ _ rec]) simp_all
    with r forward show ?thesis by (simp add: findFreshIndex_forth)
  next
    case first
    with nonneg have "?i = 0" by simp
    with first show ?thesis by (simp add: findFreshIndex_first scanOutcome_first)
  qed
qed

lemma bump_zero [simp]: "bump 0 s = s"
  by (simp add: bump_def)

lemma getFreshIndex_state: "\<exists>k. snd (getFreshIndex ci fmt chg fl s) = bump k s"
proof (cases "fetchAddressCountFromPathPartition (processor s) fmt chg - gapLimit ci < 0 \<or> \<not> fl")
  case True
  then have "snd (getFreshIndex ci fmt chg fl s) = bump 0 s"
    by (auto simp: getFreshIndex_def Let_def)
  then show ?thesis by (rule exI)
next
  case False
  define pth where "pth = \<lparr> format = fmt, changeIndex = chg,
      addressIndex = fetchAddressCountFromPathPartition (processor s) fmt chg - gapLimit ci \<rparr>"
  from False have eq: "snd (getFreshIndex ci fmt chg fl s) = snd (findFreshIndex pth s)"
    by (simp add: getFreshIndex_def Let_def pth_def)
  obtain k where "snd (findFreshIndex pth s) = bump k s"
    using findFreshIndex_state by blast
  with eq have "snd (getFreshIndex ci fmt chg fl s) = bump k s" by simp
  then show ?thesis by (rule exI)
qed

lemma getFreshIndex_bump:
  "fst (getFreshIndex ci fmt chg fl (bump k s)) = fst (getFreshIndex ci fmt chg fl s)"
proof -
  have "fst (findFreshIndex pth (bump k s)) = fst (findFreshIndex pth s)" for pth
    by (rule findFreshIndex_agree) simp_all
  then show ?thesis by (simp add: getFreshIndex_def Let_def)
qed

lemma usedAt_path:
  "usedAt p \<lparr> format = fmt, changeIndex = chg, addressIndex = a \<rparr> =
   usedAt p \<lparr> format = fmt, changeIndex = chg, addressIndex = 0 \<rparr>"
  by (rule ext) (simp add: usedAt_def)

lemma branchContiguous_scan:
  assumes "branchContiguous (processor s) fmt chg n"
  shows "branchCount s \<lparr> format = fmt, changeIndex = chg, addressIndex = a \<rparr> = n"
    and "\<forall>i \<in> {0..<n}.
           isl (usedAt (processor s) \<lparr> format = fmt, changeIndex = chg, addressIndex = a \<rparr> i) = False"
  using assms usedAt_path [of "processor s" fmt chg a]
  by (simp_all add: branchContiguous_def branchCount_def)

text \<open>C7: getFreshIndex is idempotent. A call leaves the store as it found it (only the
  probe counter advances), and a second call on the state the first one returns gives
  the same value or raises the same error.\<close>

theorem getFreshIndex_idempotent:
  "fst (getFreshIndex currencyInfo fmt chg findFlag
          (snd (getFreshIndex currencyInfo fmt chg findFlag s))) =
   fst (getFreshIndex currencyInfo fmt chg findFlag s)"
proof -
  obtain k where "snd (getFreshIndex currencyInfo fmt chg findFlag s) = bump k s"
    using getFreshIndex_state by blast
  then show ?thesis by (simp add: getFreshIndex_bump)
qed

text \<open>C8: on a branch that holds records at the contiguous indices \<open>[0, n)\<close>, the scan
  from any index \<open>i \<ge> 0\<close> returns an index (it raises no error) after at most
  \<open>n + 2\<close> calls of \<open>fetchAddressDataByPath\<close>, and it leaves the store untouched.\<close>

theorem findFreshIndex_linear_probes:
  assumes "branchContiguous (processor s) fmt chg n" and "0 \<le> i"
  shows "\<exists>r k. findFreshIndex \<lparr> format = fmt, changeIndex = chg, addressIndex = i \<rparr> s =
           (Inr r, s\<lparr> probes := probes s + k \<rparr>) \<and> k \<le> nat n + 2"
proof -
  define pth where "pth = \<lparr> format = fmt, changeIndex = chg, addressIndex = i \<rparr>"
  have cnt: "branchCount s pth = n"
    and cont: "\<forall>j \<in> {0..<branchCount s pth}. isl (usedAt (processor s) pth j) = False"
    and nn: "0 \<le> addressIndex pth" and idx: "addressIndex pth = i"
    using branchContiguous_scan [OF assms(1), of i] assms(2) by (simp_all add: pth_def)
  from findFreshIndex_scanOutcome [OF cont nn]
  obtain r where r: "fst (findFreshIndex pth s) = Inr r" by blast
  obtain k where k: "snd (findFreshIndex pth s) = bump k s"
    using findFreshIndex_state by blast
  have "k \<le> nat n + 2"
  proof (cases "n \<le> i")
    case True
    with findFreshIndex_probes_aux [OF cont nn] k cnt idx show ?thesis by simp
  next
    case False
    with findFreshIndex_probes_aux [OF cont nn] k nn
    show ?thesis unfolding cnt idx by (simp split: if_splits)
  qed
  moreover from r k have "findFreshIndex pth s = (Inr r, s\<lparr> probes := probes s + k \<rparr>)"
    by (simp add: prod_eq_iff bump_def)
  ultimately show ?thesis unfolding pth_def by blast
qed

definition exampleAddress :: "string \<Rightarrow> CurrencyFormat \<Rightarrow> int \<Rightarrow> int \<Rightarrow> bool \<Rightarrow> IAddress" where
  "exampleAddress sp fmt chg i u =
     \<lparr> scriptPubkey = sp,
       path = Some \<lparr> format = fmt, changeIndex = chg, addressIndex = i \<rparr>,
       networkQueryVal = 0, lastQuery = 0, lastTouched = 0, used = u, balance = ''0'' \<rparr>"

definition gapStore :: Processor where
  "gapStore =
     saveAddress (saveAddress (saveAddress (saveAddress emptyProcessor
       (exampleAddress ''k0'' bip84 0 0 False))
       (exampleAddress ''k1'' bip84 0 1 True))
       (exampleAddress ''k2'' bip84 0 2 False))
       (exampleAddress ''k3'' bip84 0 3 False)"

definition gapState :: EngineState where
  "gapState = initialState gapStore"

lemma gapStore_count: "fetchAddressCountFromPathPartition gapStore bip84 0 = 4"
  by (simp add: fetchAddressCountFromPathPartition_def gapStore_def saveAddress_def
      exampleAddress_def emptyProcessor_def Let_def)

lemma gapStore_usedAt:
  "usedAt gapStore \<lparr> format = bip84, changeIndex = 0, addressIndex = a \<rparr> 0 = Inr False"
  "usedAt gapStore \<lparr> format = bip84, changeIndex = 0, addressIndex = a \<rparr> 1 = Inr True"
  "usedAt gapStore \<lparr> format = bip84, changeIndex = 0, addressIndex = a \<rparr> 2 = Inr False"
  "usedAt gapStore \<lparr> format = bip84, changeIndex = 0, addressIndex = a \<rparr> 3 = Inr False"
  by (simp_all add: usedAt_def usedByPath_def fetchScriptPubkeyByPath_def
      fetchAddressByScriptPubkey_def gapStore_def saveAddress_def exampleAddress_def
      emptyProcessor_def Let_def)

lemma gapStore_contiguous: "branchContiguous gapStore bip84 0 4"
proof -
  have "isl (usedAt gapStore \<lparr> format = bip84, changeIndex = 0, addressIndex = 0 \<rparr> i) = False"
    if "i \<in> {0..<4}" for i
  proof -
    from that have "i = 0 \<or> i = 1 \<or> i = 2 \<or> i = 3" by auto
    then show ?thesis by (auto simp: gapStore_usedAt)
  qed
  then show ?thesis by (simp add: branchContiguous_def gapStore_count)
qed

theorem findFreshIndex_linear_probes_witness:
  "branchContiguous (processor gapState) bip84 0 4 \<and>
   (\<exists>r k. findFreshIndex \<lparr> format = bip84, changeIndex = 0, addressIndex = 2 \<rparr> gapState =
             (Inr r, gapState\<lparr> probes := probes gapState + k \<rparr>) \<and> k \<le> nat 4 + 2)"
proof -
  have c: "branchContiguous (processor gapState) bip84 0 4"
    by (simp add: gapState_def initialState_def gapStore_contiguous)
  from findFreshIndex_linear_probes [OF c, of 2] c show ?thesis by simp
qed

text \<open>The contract sentence of the fresh-index finder, as the spec words it: index \<open>j\<close> is
  part of the trailing run of unused indices when every record from \<open>j\<close> to the end of
  the branch is unused; \<open>r\<close> is a candidate when its record is unused and every lower
  index is used or part of the trailing run; the contract names the smallest candidate.\<close>

definition trailingUnused :: "(int \<Rightarrow> error + bool) \<Rightarrow> int \<Rightarrow> int \<Rightarrow> bool" where
  "trailingUnused u n j = (\<forall>k \<in> {j..<n}. u k = Inr False)"

definition freshCandidate :: "(int \<Rightarrow> error + bool) \<Rightarrow> int \<Rightarrow> int \<Rightarrow> bool" where
  "freshCandidate u n r =
     (0 \<le> r \<and> u r = Inr False \<and> (\<forall>j \<in> {0..<r}. u j = Inr True \<or> trailingUnused u n j))"

definition smallestFreshCandidate :: "(int \<Rightarrow> error + bool) \<Rightarrow> int \<Rightarrow> int \<Rightarrow> bool" where
  "smallestFreshCandidate u n r =
     (freshCandidate u n r \<and> (\<forall>r' \<in> {0..<r}. \<not> freshCandidate u n r'))"

text \<open>What the anchored scan finds from the anchor \<open>a\<close>: the start of the run of unused
  records around an unused anchor, or the first index above a used anchor that is not
  used (the address count \<open>n\<close> when every record from the anchor on is used).\<close>

definition anchoredFresh :: "(int \<Rightarrow> error + bool) \<Rightarrow> int \<Rightarrow> int \<Rightarrow> int \<Rightarrow> bool" where
  "anchoredFresh u n a r =
     (if a < n \<and> u a = Inr False
      then 0 \<le> r \<and> r \<le> a \<and> (\<forall>j \<in> {r..a}. u j = Inr False) \<and>
           (r = 0 \<or> u (r - 1) = Inr True)
      else a \<le> r \<and> r \<le> n \<and> (\<forall>j \<in> {a..<r}. u j = Inr True) \<and>
           (r = n \<or> u r = Inr False))"

definition exampleCurrencyInfo :: "int \<Rightarrow> EngineCurrencyInfo" where
  "exampleCurrencyInfo g = \<lparr> gapLimit = g, currencyCode = ''BTC'', network = ''bitcoin'' \<rparr>"

definition runStore :: Processor where
  "runStore =
     saveAddress (saveAddress (saveAddress (saveAddress (saveAddress emptyProcessor
       (exampleAddress ''k0'' bip84 0 0 True))
       (exampleAddress ''k1'' bip84 0 1 False))
       (exampleAddress ''k2'' bip84 0 2 False))
       (exampleAddress ''k3'' bip84 0 3 False))
       (exampleAddress ''k4'' bip84 0 4 False)"

definition runState :: EngineState where
  "runState = initialState runStore"

lemma runStore_count: "fetchAddressCountFromPathPartition runStore bip84 0 = 5"
  by (simp add: fetchAddressCountFromPathPartition_def runStore_def saveAddress_def
      exampleAddress_def emptyProcessor_def Let_def)

lemma runStore_usedAt:
  "usedAt runStore \<lparr> format = bip84, changeIndex = 0, addressIndex = a \<rparr> 0 = Inr True"
  "usedAt runStore \<lparr> format = bip84, changeIndex = 0, addressIndex = a \<rparr> 1 = Inr False"
  "usedAt runStore \<lparr> format = bip84, changeIndex = 0, addressIndex = a \<rparr> 2 = Inr False"
  "usedAt runStore \<lparr> format = bip84, changeIndex = 0, addressIndex = a \<rparr> 3 = Inr False"
  "usedAt runStore \<lparr> format = bip84, changeIndex = 0, addressIndex = a \<rparr> 4 = Inr False"
  by (simp_all add: usedAt_def usedByPath_def fetchScriptPubkeyByPath_def
      fetchAddressByScriptPubkey_def runStore_def saveAddress_def exampleAddress_def
      emptyProcessor_def Let_def)

lemma runStore_contiguous: "branchContiguous runStore bip84 0 5"
proof -
  have "isl (usedAt runStore \<lparr> format = bip84, changeIndex = 0, addressIndex = 0 \<rparr> i) = False"
    if "i \<in> {0..<5}" for i
  proof -
    from that have "i = 0 \<or> i = 1 \<or> i = 2 \<or> i = 3 \<or> i = 4" by auto
    then show ?thesis by (auto simp: runStore_usedAt)
  qed
  then show ?thesis by (simp add: branchContiguous_def runStore_count)
qed

lemma anchoredFresh_of_scanOutcome:
  assumes so: "scanOutcome u n a r" and a: "0 \<le> a" "a \<le> n"
    and known: "0 < n \<Longrightarrow> u 0 = Inr True \<or> u 0 = Inr False"
    and noslip: "\<not> (odd a \<and> (\<forall>j \<in> {0..a}. u j = Inr False))"
  shows "anchoredFresh u n a r"
proof (cases "a < n \<and> u a = Inr False")
  case True
  with so have s: "0 \<le> r" "r \<le> a" "\<forall>j \<in> {r..a}. u j = Inr False"
    "r = 0 \<or> u (r - 1) = Inr True \<or> (r = 1 \<and> odd a)"
    by (simp_all add: scanOutcome_def)
  have "r = 0 \<or> u (r - 1) = Inr True"
  proof (rule ccontr)
    assume n: "\<not> (r = 0 \<or> u (r - 1) = Inr True)"
    with s(4) have r1: "r = 1" and odd: "odd a" by auto
    from True a have "0 < n" by simp
    with n r1 known have u0: "u 0 = Inr False" by auto
    have "u j = Inr False" if "j \<in> {0..a}" for j
    proof (cases "j = 0")
      case True
      with u0 show ?thesis by simp
    next
      case False
      with that r1 have "j \<in> {r..a}" by simp
      with s(3) show ?thesis by blast
    qed
    with odd noslip show False by blast
  qed
  with s True show ?thesis by (simp add: anchoredFresh_def)
next
  case False
  with so a have "a \<le> r" "r \<le> n" "\<forall>j \<in> {a..<r}. u j = Inr True" "n \<le> r \<or> u r = Inr False"
    by (simp_all add: scanOutcome_def)
  with False show ?thesis by (auto simp: anchoredFresh_def)
qed

text \<open>C2, as the claim states it, fails. The branch holds four records, used at index 1
  only, and the gap limit is 2: the scan starts at the anchor 2, finds it unused and its
  predecessor used, and returns 2. The smallest unused index, which is what the contract
  sentence names (every index below it is used), is 0.\<close>

theorem getFreshIndex_not_smallest_fresh:
  "branchContiguous (processor gapState) bip84 0 4 \<and>
   fst (getFreshIndex (exampleCurrencyInfo 2) bip84 0 True gapState) = Inr 2 \<and>
   \<not> smallestFreshCandidate
       (usedAt (processor gapState) \<lparr> format = bip84, changeIndex = 0, addressIndex = 0 \<rparr>) 4 2"
proof -
  let ?u = "usedAt (processor gapState) \<lparr> format = bip84, changeIndex = 0, addressIndex = 0 \<rparr>"
  have c: "branchContiguous (processor gapState) bip84 0 4"
    by (simp add: gapState_def initialState_def gapStore_contiguous)
  have "findFreshIndex \<lparr> format = bip84, changeIndex = 0, addressIndex = 2 \<rparr> gapState =
      (Inr 2, bump 2 gapState)"
    using findFreshIndex_prev_used
      [of "\<lparr> format = bip84, changeIndex = 0, addressIndex = 2 \<rparr>" gapState]
    by (simp add: branchCount_def gapState_def initialState_def gapStore_count gapStore_usedAt)
  then have r: "fst (getFreshIndex (exampleCurrencyInfo 2) bip84 0 True gapState) = Inr 2"
    by (simp add: getFreshIndex_def Let_def exampleCurrencyInfo_def gapState_def initialState_def gapStore_count)
  have "freshCandidate ?u 4 0"
    by (simp add: freshCandidate_def gapState_def initialState_def gapStore_usedAt)
  moreover have "(0::int) \<in> {0..<2}" by simp
  ultimately have "\<not> smallestFreshCandidate ?u 4 2"
    unfolding smallestFreshCandidate_def by blast
  with c r show ?thesis by blast
qed

text \<open>C2, amended: on a branch that holds records at the contiguous indices \<open>[0, n)\<close>,
  with \<open>0 \<le> gapLimit \<le> n\<close>, getFreshIndex with find = true returns the index the scan
  anchored at \<open>a = n - gapLimit\<close> finds: the start of the run of unused records around
  an unused anchor, or the first index above a used anchor whose record is not used
  (\<open>n\<close> when there is none). The case of an odd anchor whose run of unused records
  reaches down to index 0 is left out.\<close>

theorem getFreshIndex_anchored:
  assumes "branchContiguous (processor s) fmt chg n"
    and "0 \<le> gapLimit currencyInfo" and "gapLimit currencyInfo \<le> n"
    and "\<not> (odd (n - gapLimit currencyInfo) \<and>
           (\<forall>j \<in> {0..n - gapLimit currencyInfo}.
              usedAt (processor s) \<lparr> format = fmt, changeIndex = chg, addressIndex = 0 \<rparr> j = Inr False))"
  shows "\<exists>r. fst (getFreshIndex currencyInfo fmt chg True s) = Inr r \<and>
     anchoredFresh (usedAt (processor s) \<lparr> format = fmt, changeIndex = chg, addressIndex = 0 \<rparr>)
       n (n - gapLimit currencyInfo) r"
proof -
  define a where "a = n - gapLimit currencyInfo"
  define pth where "pth = \<lparr> format = fmt, changeIndex = chg, addressIndex = a \<rparr>"
  define u where "u = usedAt (processor s) \<lparr> format = fmt, changeIndex = chg, addressIndex = 0 \<rparr>"
  have a: "0 \<le> a" "a \<le> n" using assms(2,3) by (simp_all add: a_def)
  have cnt: "branchCount s pth = n"
    and cont: "\<forall>j \<in> {0..<branchCount s pth}. isl (usedAt (processor s) pth j) = False"
    and up: "usedAt (processor s) pth = u" and idx: "addressIndex pth = a"
    using branchContiguous_scan [OF assms(1), of a] usedAt_path [of "processor s" fmt chg a]
    by (simp_all add: pth_def u_def)
  from a idx have nn: "0 \<le> addressIndex pth" by simp
  from findFreshIndex_scanOutcome [OF cont nn]
  obtain r where r: "fst (findFreshIndex pth s) = Inr r" and so: "scanOutcome u n a r"
    unfolding up cnt idx by blast
  have known: "u 0 = Inr True \<or> u 0 = Inr False" if "0 < n"
  proof -
    from that have "0 \<in> {0..<n}" by simp
    with cont cnt up have "isl (u 0) = False" by auto
    then show ?thesis by (cases "u 0") auto
  qed
  from assms(4) have noslip: "\<not> (odd a \<and> (\<forall>j \<in> {0..a}. u j = Inr False))"
    by (simp add: a_def u_def)
  from anchoredFresh_of_scanOutcome [OF so a known noslip]
  have "anchoredFresh u n a r" by simp
  moreover from assms(1) a r
  have "fst (getFreshIndex currencyInfo fmt chg True s) = Inr r"
    by (simp add: getFreshIndex_def Let_def branchContiguous_def a_def pth_def)
  ultimately show ?thesis unfolding a_def u_def by blast
qed

theorem getFreshIndex_anchored_witness:
  "branchContiguous (processor runState) bip84 0 5 \<and>
   fst (getFreshIndex (exampleCurrencyInfo 1) bip84 0 True runState) = Inr 1 \<and>
   anchoredFresh
     (usedAt (processor runState) \<lparr> format = bip84, changeIndex = 0, addressIndex = 0 \<rparr>) 5 4 1"
proof -
  let ?u = "usedAt (processor runState) \<lparr> format = bip84, changeIndex = 0, addressIndex = 0 \<rparr>"
  have c: "branchContiguous (processor runState) bip84 0 5"
    by (simp add: runState_def initialState_def runStore_contiguous)
  have g: "0 \<le> gapLimit (exampleCurrencyInfo 1)" "gapLimit (exampleCurrencyInfo 1) \<le> 5"
    and ns: "\<not> (odd (5 - gapLimit (exampleCurrencyInfo 1)) \<and>
           (\<forall>j \<in> {0..5 - gapLimit (exampleCurrencyInfo 1)}. ?u j = Inr False))"
    by (simp_all add: exampleCurrencyInfo_def)
  from getFreshIndex_anchored [OF c g ns]
  obtain r where r: "fst (getFreshIndex (exampleCurrencyInfo 1) bip84 0 True runState) = Inr r"
    and af: "anchoredFresh ?u 5 4 r"
    by (auto simp: exampleCurrencyInfo_def)
  have u: "?u 0 = Inr True" "?u 1 = Inr False" "?u 2 = Inr False" "?u 3 = Inr False"
    by (simp_all add: runState_def initialState_def runStore_usedAt)
  from af u have b: "0 \<le> r" "r \<le> 4" and run: "\<forall>j \<in> {r..4}. ?u j = Inr False"
    and start: "r = 0 \<or> ?u (r - 1) = Inr True"
    by (simp_all add: anchoredFresh_def runState_def initialState_def runStore_usedAt)
  from b have "r = 0 \<or> r = 1 \<or> r = 2 \<or> r = 3 \<or> r = 4" by auto
  then have "r = 1"
  proof (elim disjE)
    assume "r = 0"
    with run have "?u 0 = Inr False" by simp
    with u(1) show ?thesis by simp
  next
    assume "r = 1"
    then show ?thesis .
  next
    assume "r = 2"
    with start u(2) show ?thesis by simp
  next
    assume "r = 3"
    with start u(3) show ?thesis by simp
  next
    assume "r = 4"
    with start u(4) show ?thesis by simp
  qed
  with c r af show ?thesis by simp
qed

section \<open>Path algebra and the engine's collaborators\<close>

text \<open>
  Modelled from the spec: the module \<^verbatim>\<open>engine/utils\<close> is not among the sources. The spec
  lists the formats as bip32-legacy, bip44-legacy (a.k.a. Airbitz), bip49-wrapped-segwit
  and bip84-segwit, and gives the supported branches: \<open>{0}\<close> when the purpose type of the
  format is legacy or Airbitz, \<open>{0, 1}\<close> otherwise. No statement below depends on which
  of the two legacy formats carries the Airbitz purpose.
\<close>

definition currencyFormatToPurposeType :: "CurrencyFormat \<Rightarrow> BIP43PurposeTypeEnum" where
  "currencyFormatToPurposeType fmt =
     (case fmt of bip32 \<Rightarrow> Legacy | bip44 \<Rightarrow> Airbitz | bip49 \<Rightarrow> WrappedSegwit | bip84 \<Rightarrow> Segwit)"

definition getCurrencyFormatFromPurposeType :: "BIP43PurposeTypeEnum \<Rightarrow> CurrencyFormat" where
  "getCurrencyFormatFromPurposeType purpose =
     (case purpose of Legacy \<Rightarrow> bip32 | Airbitz \<Rightarrow> bip44 | WrappedSegwit \<Rightarrow> bip49 | Segwit \<Rightarrow> bip84)"

definition getFormatSupportedBranches :: "CurrencyFormat \<Rightarrow> int list" where
  "getFormatSupportedBranches fmt =
     (case currencyFormatToPurposeType fmt of
        Legacy \<Rightarrow> [0]
      | Airbitz \<Rightarrow> [0]
      | WrappedSegwit \<Rightarrow> [0, 1]
      | Segwit \<Rightarrow> [0, 1])"

text \<open>
  The keymanager (\<^verbatim>\<open>walletTools\<close>), the indexer (\<^verbatim>\<open>blockBook\<close>), the decimal-string
  addition \<^verbatim>\<open>bs.add\<close> of biggystring and \<^verbatim>\<open>validScriptPubkeyFromAddress\<close> are outside the
  sources: they are parameters of the model, fields of the configuration the engine is
  made with. An indexer call returns a value or fails; within one run the indexer
  answers a request the same way each time. \<open>walletFormats\<close> stands for
  \<^verbatim>\<open>getWalletSupportedFormats(walletInfo)\<close> and \<open>walletPurpose\<close> for
  \<^verbatim>\<open>getPurposeTypeFromKeys(walletInfo)\<close>.
\<close>

record ScriptPubkeyResult =
  sp_scriptPubkey :: string
  sp_redeemScript :: "string option"

record AddressResult =
  res_address :: string
  res_legacyAddress :: string

record UTXOPluginWalletTools =
  getScriptPubkey :: "AddressPath \<Rightarrow> ScriptPubkeyResult"
  addressToScriptPubkey :: "string \<Rightarrow> string"
  scriptPubkeyToAddress :: "string \<Rightarrow> CurrencyFormat \<Rightarrow> AddressResult"

record AccountDetails =
  acc_balance :: string
  acc_unconfirmedBalance :: string
  acc_txs :: int
  acc_unconfirmedTxs :: int

record AddressTxsPage =
  page_transactions :: "ITransaction list option"
  page_totalPages :: "int option"

record IAccountUTXO =
  au_txid :: string
  au_vout :: nat
  au_value :: string
  au_height :: "int option"

record BlockBook =
  bb_fetchAddress :: "string \<Rightarrow> error + AccountDetails"
  bb_fetchAddressTxs :: "string \<Rightarrow> int option \<Rightarrow> int \<Rightarrow> error + AddressTxsPage"
  bb_fetchAddressUtxos :: "string \<Rightarrow> error + IAccountUTXO list"
  bb_fetchTransaction :: "string \<Rightarrow> error + ITransaction"

record EngineConfig =
  networkEnum :: string
  currencyInfo :: EngineCurrencyInfo
  walletTools :: UTXOPluginWalletTools
  blockBook :: BlockBook
  walletFormats :: "CurrencyFormat list"
  walletPurpose :: BIP43PurposeTypeEnum
  bs_add :: "string \<Rightarrow> string \<Rightarrow> string"
  validScriptPubkeyFromAddress :: "string option \<Rightarrow> string \<Rightarrow> string \<Rightarrow> string"

record EdgeFreshAddress =
  publicAddress :: string
  segwitAddress :: "string option"
  legacyAddress :: "string option"

section \<open>Lookahead generator\<close>

definition saveNewOrUpdateAddressPathIfNeeded ::
    "UTXOPluginWalletTools \<Rightarrow> AddressPath option \<Rightarrow> string option \<Rightarrow> EngineState \<Rightarrow> bool result" where
  "saveNewOrUpdateAddressPathIfNeeded tools pathArg scriptPubkeyArg s =
     (let derived = (case pathArg of
                       None \<Rightarrow> Inl CannotSaveWithoutScriptPubkeyOrPath
                     | Some pth \<Rightarrow> Inr (sp_scriptPubkey (getScriptPubkey tools pth)))
      in case (case scriptPubkeyArg of
                 None \<Rightarrow> derived
               | Some sp \<Rightarrow> if sp = [] then derived else Inr sp) of
           Inl e \<Rightarrow> (Inl e, s)
         | Inr sp \<Rightarrow>
             (case fetchAddressByScriptPubkey (processor s) sp of
                None \<Rightarrow>
                  (Inr True,
                   s\<lparr> processor := saveAddress (processor s)
                        \<lparr> scriptPubkey = sp, path = pathArg, networkQueryVal = 0,
                          lastQuery = 0, lastTouched = 0, used = False, balance = ''0'' \<rparr> \<rparr>)
              | Some addressData \<Rightarrow>
                  if path addressData = None
                  then (Inr False,
                        s\<lparr> processor := saveAddress (processor s) (addressData\<lparr> path := pathArg \<rparr>) \<rparr>)
                  else (Inr False, s)))"

text \<open>The body of \<^verbatim>\<open>if (isNew && processNewAddresses)\<close>: the script pubkey of the path is
  awaited, and the address of the new record is handed to \<^verbatim>\<open>mutex.runExclusive\<close>. The
  caller holds the mutex, so the \<^verbatim>\<open>processAddress\<close> runs after \<^verbatim>\<open>setLookAhead\<close> has
  released it; the model records the hand-over in the trace.\<close>

definition dispatchNewAddress ::
    "EngineConfig \<Rightarrow> CurrencyFormat \<Rightarrow> AddressPath \<Rightarrow> EngineState \<Rightarrow> unit result" where
  "dispatchNewAddress cfg fmt pth s =
     (let scriptPubkey = fetchScriptPubkeyByPath (processor s) pth;
          s1 = suspend s
      in case scriptPubkey of
           None \<Rightarrow> (Inl TypeError, s1)
         | Some sp \<Rightarrow>
             (Inr (),
              s1\<lparr> trace := trace s1 @
                   [Dispatched (res_address (scriptPubkeyToAddress (walletTools cfg) sp fmt))] \<rparr>))"

text \<open>The inner loop \<^verbatim>\<open>for (let i = addressCount; i < freshIndex + gapLimit; i++)\<close>, with
  \<open>freshIndex\<close> read again at the end of each round. Every \<^verbatim>\<open>await\<close> of the loop is a
  suspension point, placed where the awaited call has returned; the awaited call itself
  runs in one piece. Nothing bounds the number of rounds in general, so a run that never
  leaves the loop is the value \<open>None\<close>.\<close>

partial_function (option) setLookAhead_loop ::
    "EngineConfig \<Rightarrow> CurrencyFormat \<Rightarrow> bool \<Rightarrow> int \<Rightarrow> int \<Rightarrow> int \<Rightarrow> EngineState
       \<Rightarrow> unit result option" where
  "setLookAhead_loop cfg fmt processNewAddresses branch i freshIndex s =
     (if i < freshIndex + gapLimit (currencyInfo cfg) then
        (case saveNewOrUpdateAddressPathIfNeeded (walletTools cfg)
                (Some \<lparr> format = fmt, changeIndex = branch, addressIndex = i \<rparr>) None s of
           (Inl e, s1) \<Rightarrow> Some (Inl e, s1)
         | (Inr isNew, s1) \<Rightarrow>
             (case (if isNew \<and> processNewAddresses
                    then dispatchNewAddress cfg fmt
                           \<lparr> format = fmt, changeIndex = branch, addressIndex = i \<rparr> (suspend s1)
                    else (Inr (), suspend s1)) of
                (Inl e, s2) \<Rightarrow> Some (Inl e, s2)
              | (Inr _, s2) \<Rightarrow>
                  (case getFreshIndex (currencyInfo cfg) fmt branch True s2 of
                     (Inl e, s3) \<Rightarrow> Some (Inl e, s3)
                   | (Inr freshIndex', s3) \<Rightarrow>
                       setLookAhead_loop cfg fmt processNewAddresses branch (i + 1) freshIndex'
                         (suspend s3))))
      else Some (Inr (), s))"

fun setLookAhead_branches ::
    "EngineConfig \<Rightarrow> CurrencyFormat \<Rightarrow> bool \<Rightarrow> int list \<Rightarrow> EngineState \<Rightarrow> unit result option" where
  "setLookAhead_branches cfg fmt processNewAddresses [] s = Some (Inr (), s)"
| "setLookAhead_branches cfg fmt processNewAddresses (branch # rest) s =
     (case getFreshIndex (currencyInfo cfg) fmt branch True s of
        (Inl e, s1) \<Rightarrow> Some (Inl e, s1)
      | (Inr freshIndex, s1) \<Rightarrow>
          (case setLookAhead_loop cfg fmt processNewAddresses branch
                  (fetchAddressCountFromPathPartition (processor (suspend s1)) fmt branch)
                  freshIndex (suspend (suspend s1)) of
             None \<Rightarrow> None
           | Some (Inl e, s2) \<Rightarrow> Some (Inl e, s2)
           | Some (Inr _, s2) \<Rightarrow> setLookAhead_branches cfg fmt processNewAddresses rest s2))"

text \<open>\<^verbatim>\<open>setLookAhead\<close>. The mutex it holds from start to end serialises it against other
  calls of \<^verbatim>\<open>setLookAhead\<close> and leaves no trace but the deferred \<open>Dispatched\<close>
  hand-overs; the writers outside the mutex run at the suspension points, the first of
  which is \<^verbatim>\<open>await mutex.acquire()\<close>.\<close>

definition setLookAhead ::
    "EngineConfig \<Rightarrow> CurrencyFormat \<Rightarrow> bool \<Rightarrow> EngineState \<Rightarrow> unit result option" where
  "setLookAhead cfg fmt processNewAddresses s =
     setLookAhead_branches cfg fmt processNewAddresses (getFormatSupportedBranches fmt)
       (suspend (s\<lparr> trace := trace s @ [SetLookAheadCalled fmt processNewAddresses] \<rparr>))"

section \<open>Engine facade\<close>

definition getFreshAddress ::
    "EngineConfig \<Rightarrow> CurrencyFormat \<Rightarrow> int \<Rightarrow> bool \<Rightarrow> EngineState \<Rightarrow> AddressResult result" where
  "getFreshAddress cfg fmt chg findFlag s =
     (case getFreshIndex (currencyInfo cfg) fmt chg findFlag s of
        (Inl e, s1) \<Rightarrow> (Inl e, s1)
      | (Inr freshIndex, s1) \<Rightarrow>
          (let pth = \<lparr> format = fmt, changeIndex = chg, addressIndex = freshIndex \<rparr>;
               sp = (case fetchScriptPubkeyByPath (processor s1) pth of
                       Some stored \<Rightarrow> stored
                     | None \<Rightarrow> sp_scriptPubkey (getScriptPubkey (walletTools cfg) pth))
           in if sp = [] then (Inl UnknownAddressPath, s1)
              else (Inr (scriptPubkeyToAddress (walletTools cfg) sp fmt), s1)))"

text \<open>The method \<^verbatim>\<open>getFreshAddress(change?)\<close> of the engine state; \<open>change\<close> is \<open>None\<close>
  when the caller leaves the argument out.\<close>

definition engine_getFreshAddress ::
    "EngineConfig \<Rightarrow> bool option \<Rightarrow> EngineState \<Rightarrow> EdgeFreshAddress result" where
  "engine_getFreshAddress cfg change s =
     (let purpose = walletPurpose cfg;
          chg = (if change = Some True \<and> purpose \<noteq> Airbitz then 1 else 0)
      in if purpose = Segwit then
           (case getFreshAddress cfg (getCurrencyFormatFromPurposeType WrappedSegwit) chg False s of
              (Inl e, s1) \<Rightarrow> (Inl e, s1)
            | (Inr wrapped, s1) \<Rightarrow>
                (case getFreshAddress cfg (getCurrencyFormatFromPurposeType Segwit) chg False s1 of
                   (Inl e, s2) \<Rightarrow> (Inl e, s2)
                 | (Inr native, s2) \<Rightarrow>
                     (Inr \<lparr> publicAddress = res_address wrapped,
                            segwitAddress = Some (res_address native),
                            legacyAddress = None \<rparr>, s2)))
         else
           (case getFreshAddress cfg (getCurrencyFormatFromPurposeType purpose) chg False s of
              (Inl e, s1) \<Rightarrow> (Inl e, s1)
            | (Inr r, s1) \<Rightarrow>
                (Inr \<lparr> publicAddress = res_address r,
                       segwitAddress = None,
                       legacyAddress = (if res_legacyAddress r \<noteq> res_address r
                                        then Some (res_legacyAddress r) else None) \<rparr>, s1)))"


definition markAddressUsed :: "EngineConfig \<Rightarrow> string \<Rightarrow> EngineState \<Rightarrow> EngineState" where
  "markAddressUsed cfg a s =
     s\<lparr> processor := updateAddressByScriptPubkey (processor s)
          (addressToScriptPubkey (walletTools cfg) a) None (Some True) \<rparr>"




section \<open>Normalizers\<close>

definition firstAddress :: "string list \<Rightarrow> string option" where
  "firstAddress xs = (case xs of [] \<Rightarrow> None | a # _ \<Rightarrow> Some a)"

definition processRawTx :: "EngineConfig \<Rightarrow> ITransaction \<Rightarrow> ProcessorTransaction" where
  "processRawTx cfg tx =
     \<lparr> ptx_txid = raw_txid tx,
       ptx_hex = raw_hex tx,
       ptx_blockHeight = raw_blockHeight tx,
       ptx_date = raw_blockTime tx,
       ptx_fees = raw_fees tx,
       ptx_inputs = map (\<lambda>input.
           \<lparr> in_txId = vin_txid input,
             in_outputIndex = vin_vout input,
             in_scriptPubkey = validScriptPubkeyFromAddress cfg (firstAddress (vin_addresses input))
                                 (network (currencyInfo cfg)) (networkEnum cfg),
             in_amount = vin_value input \<rparr>) (raw_vin tx),
       ptx_outputs = map (\<lambda>output.
           \<lparr> out_index = vout_n output,
             out_scriptPubkey =
               (case vout_hex output of
                  Some h \<Rightarrow> h
                | None \<Rightarrow> validScriptPubkeyFromAddress cfg (firstAddress (vout_addresses output))
                            (network (currencyInfo cfg)) (networkEnum cfg)),
             out_amount = vout_value output \<rparr>) (raw_vout tx),
       ptx_ourIns = [],
       ptx_ourOuts = [],
       ptx_ourAmount = ''0'' \<rparr>"


text \<open>The loop \<^verbatim>\<open>for (const rawTx of transactions)\<close> of \<^verbatim>\<open>processAddressTransactions\<close>:
  each transaction is normalized and saved, and its date entered under its txid in the
  map of the page.\<close>

fun saveTransactions ::
    "EngineConfig \<Rightarrow> ITransaction list \<Rightarrow> (string \<rightharpoonup> int) \<Rightarrow> EngineState
       \<Rightarrow> (string \<rightharpoonup> int) \<times> EngineState" where
  "saveTransactions cfg [] changeTxidMap s = (changeTxidMap, s)"
| "saveTransactions cfg (rawTx # rest) changeTxidMap s =
     (let tx = processRawTx cfg rawTx
      in saveTransactions cfg rest (changeTxidMap(ptx_txid tx \<mapsto> ptx_date tx))
           (s\<lparr> processor := saveTransaction (processor s) tx \<rparr>))"

text \<open>\<^verbatim>\<open>processAddressTransactions\<close>. The guard \<^verbatim>\<open>transactions.length ?? 0 > 0\<close> parses as
  \<^verbatim>\<open>transactions.length ?? (0 > 0)\<close>; a length is never nullish, so the guard is the
  truthiness of the length. \<^verbatim>\<open>page < totalPages\<close> is false when the response has no
  \<^verbatim>\<open>totalPages\<close>. The indexer decides how many pages there are, so the recursion is
  partial.\<close>

partial_function (option) processAddressTransactions ::
    "EngineConfig \<Rightarrow> string \<Rightarrow> int \<Rightarrow> EngineState \<Rightarrow> unit result option" where
  "processAddressTransactions cfg addr page s =
     (case bb_fetchAddressTxs (blockBook cfg) addr
             (map_option networkQueryVal
                (fetchAddressByScriptPubkey (processor s)
                   (addressToScriptPubkey (walletTools cfg) addr)))
             page of
        Inl e \<Rightarrow> Some (Inl e, s)
      | Inr response \<Rightarrow>
          (case saveTransactions cfg
                  (case page_transactions response of None \<Rightarrow> [] | Some txs \<Rightarrow> txs)
                  Map.empty
                  (s\<lparr> trace := trace s @
                       [FetchedPage addr page
                          (case page_transactions response of None \<Rightarrow> [] | Some txs \<Rightarrow> txs)] \<rparr>) of
             (changeTxidMap, s1) \<Rightarrow>
               (case (if length (case page_transactions response of None \<Rightarrow> [] | Some txs \<Rightarrow> txs) \<noteq> 0
                      then s1\<lparr> trace := trace s1 @ [Emit (TXIDS_CHANGED changeTxidMap)] \<rparr>
                      else s1) of
                  s2 \<Rightarrow>
                    if (case page_totalPages response of
                          None \<Rightarrow> False
                        | Some totalPages \<Rightarrow> page < totalPages)
                    then processAddressTransactions cfg addr (page + 1) s2
                    else Some (Inr (), s2))))"

section \<open>UTXO reconciliation\<close>

text \<open>The decimal rendering of a non-negative integer, as the template literal
  \<^verbatim>\<open>`${utxo.txid}_${utxo.vout}`\<close> renders \<^verbatim>\<open>vout\<close>. A JavaScript number renders in
  plain digits below \<open>10\<^sup>2\<^sup>1\<close> and in exponent form from there on; \<^verbatim>\<open>vout\<close> is the
  index of an output of a transaction, an unsigned 32-bit integer, and the rendering
  is meant for that range only.\<close>

function numberToString :: "nat \<Rightarrow> string" where
  "numberToString n =
     (if n < 10 then [char_of (48 + n)]
      else numberToString (n div 10) @ [char_of (48 + n mod 10)])"
  by pat_completeness auto
termination
  by (relation "measure id") auto

declare numberToString.simps [simp del]

definition utxoId :: "string \<Rightarrow> nat \<Rightarrow> string" where
  "utxoId txid vout = txid @ ''_'' @ numberToString vout"



section \<open>Address processor\<close>


section \<open>Server states: broadcastTx\<close>

text \<open>
  \<^verbatim>\<open>makeServerStates\<close> keeps its connections in \<^verbatim>\<open>new Map<string, BlockBook>()\<close>. A
  JavaScript object has own enumerable string-keyed properties, which \<^verbatim>\<open>Object.keys\<close>
  lists, and a \<^verbatim>\<open>Map\<close> has in addition its entries, in an internal slot that
  \<^verbatim>\<open>get\<close>, \<^verbatim>\<open>set\<close> and \<^verbatim>\<open>delete\<close> read and write and \<^verbatim>\<open>Object.keys\<close> does not see.
\<close>

record 'v JsMap =
  ownProperties :: "(string \<times> 'v) list"
  mapData :: "(string \<times> 'v) list"

definition new_Map :: "'v JsMap" where
  "new_Map = \<lparr> ownProperties = [], mapData = [] \<rparr>"

definition Map_get :: "'v JsMap \<Rightarrow> string \<Rightarrow> 'v option" where
  "Map_get m k = map_of (mapData m) k"

definition Map_set :: "'v JsMap \<Rightarrow> string \<Rightarrow> 'v \<Rightarrow> 'v JsMap" where
  "Map_set m k v = m\<lparr> mapData := AList.update k v (mapData m) \<rparr>"

definition Map_delete :: "'v JsMap \<Rightarrow> string \<Rightarrow> 'v JsMap" where
  "Map_delete m k = m\<lparr> mapData := AList.delete k (mapData m) \<rparr>"

definition Object_keys :: "'v JsMap \<Rightarrow> string list" where
  "Object_keys m = map fst (ownProperties m)"

text \<open>A connection, as \<^verbatim>\<open>broadcastTx\<close> uses it: whether it is connected, and what its own
  \<^verbatim>\<open>broadcastTx\<close> answers for a transaction (the \<^verbatim>\<open>result\<close> of the response, or the
  error the promise is rejected with).\<close>

record Connection =
  isConnected :: bool
  conn_broadcastTx :: "string \<Rightarrow> error + string"

datatype PromiseState = Pending | Resolved string | Rejected error

text \<open>The state of one call of \<^verbatim>\<open>broadcastTx\<close>: the promise it returns (the first
  \<^verbatim>\<open>resolve\<close> or \<^verbatim>\<open>reject\<close> settles it, later ones change nothing), the local variables
  \<^verbatim>\<open>resolved\<close> and \<^verbatim>\<open>bad\<close>, and the URIs of the connections whose \<^verbatim>\<open>broadcastTx\<close> was
  invoked.\<close>

record BroadcastState =
  promise :: PromiseState
  resolved :: bool
  bad :: nat
  invoked :: "string list"

definition settle :: "PromiseState \<Rightarrow> BroadcastState \<Rightarrow> BroadcastState" where
  "settle outcome b = (if promise b = Pending then b\<lparr> promise := outcome \<rparr> else b)"

text \<open>The loop \<^verbatim>\<open>for (const uri of uris)\<close>; the callbacks of the connections are run in
  the order of the URIs.\<close>

fun broadcastTx_loop ::
    "Connection JsMap \<Rightarrow> string \<Rightarrow> nat \<Rightarrow> string list \<Rightarrow> BroadcastState \<Rightarrow> BroadcastState" where
  "broadcastTx_loop connections transaction n [] b = b"
| "broadcastTx_loop connections transaction n (uri # rest) b =
     (case Map_get connections uri of
        None \<Rightarrow> broadcastTx_loop connections transaction n rest b
      | Some conn \<Rightarrow>
          broadcastTx_loop connections transaction n rest
            (case conn_broadcastTx conn transaction of
               Inr response \<Rightarrow>
                 (if \<not> resolved b
                  then settle (Resolved response) (b\<lparr> resolved := True, invoked := invoked b @ [uri] \<rparr>)
                  else b\<lparr> invoked := invoked b @ [uri] \<rparr>)
             | Inl e \<Rightarrow>
                 (if bad b + 1 = n
                  then settle (Rejected e) (b\<lparr> bad := bad b + 1, invoked := invoked b @ [uri] \<rparr>)
                  else b\<lparr> bad := bad b + 1, invoked := invoked b @ [uri] \<rparr>)))"

definition noAvailableConnections :: error where
  "noAvailableConnections =
     ExternalError (''No available connections'' @ [CHR 0x0A] @ ''Check your internet signal'')"

definition broadcastTx :: "Connection JsMap \<Rightarrow> string \<Rightarrow> BroadcastState" where
  "broadcastTx connections transaction =
     (let uris = filter (\<lambda>uri. case Map_get connections uri of
                                  None \<Rightarrow> False
                                | Some conn \<Rightarrow> isConnected conn)
                   (Object_keys connections);
          b0 = \<lparr> promise = Pending, resolved = False, bad = 0, invoked = [] \<rparr>;
          b1 = (if length uris < 1 then settle (Rejected noAvailableConnections) b0 else b0)
      in broadcastTx_loop connections transaction (length uris) uris b1)"

text \<open>The operations \<^verbatim>\<open>makeServerStates\<close> applies to \<^verbatim>\<open>connections\<close>: it is created by
  \<^verbatim>\<open>new Map()\<close> and from then on only written by \<^verbatim>\<open>set\<close> and \<^verbatim>\<open>delete\<close>.\<close>

datatype MapOp = SetOp string Connection | DeleteOp string

fun applyMapOp :: "MapOp \<Rightarrow> Connection JsMap \<Rightarrow> Connection JsMap" where
  "applyMapOp (SetOp uri conn) m = Map_set m uri conn"
| "applyMapOp (DeleteOp uri) m = Map_delete m uri"

definition connectionsAfter :: "MapOp list \<Rightarrow> Connection JsMap" where
  "connectionsAfter ops = fold applyMapOp ops new_Map"

lemma Object_keys_applyMapOp: "Object_keys (applyMapOp op m) = Object_keys m"
  by (cases op) (simp_all add: Object_keys_def Map_set_def Map_delete_def)

lemma Object_keys_fold: "Object_keys (fold applyMapOp ops m) = Object_keys m"
  by (induction ops arbitrary: m) (simp_all add: Object_keys_applyMapOp)

lemma Object_keys_connectionsAfter: "Object_keys (connectionsAfter ops) = []"
  by (simp add: connectionsAfter_def Object_keys_fold) (simp add: Object_keys_def new_Map_def)

text \<open>C9: whatever \<^verbatim>\<open>set\<close> and \<^verbatim>\<open>delete\<close> have put into the connections map,
  \<^verbatim>\<open>Object.keys(connections)\<close> is empty, so \<^verbatim>\<open>broadcastTx\<close> rejects its promise with the
  error "No available connections" and invokes the \<^verbatim>\<open>broadcastTx\<close> of no connection.\<close>

theorem broadcastTx_no_available_connections:
  "Object_keys (connectionsAfter ops) = [] \<and>
   broadcastTx (connectionsAfter ops) transaction =
     \<lparr> promise = Rejected noAvailableConnections, resolved = False, bad = 0, invoked = [] \<rparr>"
  by (simp add: broadcastTx_def Object_keys_connectionsAfter settle_def)

definition exampleConnection :: Connection where
  "exampleConnection = \<lparr> isConnected = True, conn_broadcastTx = (\<lambda>tx. Inr ''txid'') \<rparr>"

text \<open>An instance: one connected server that would accept the transaction.\<close>

theorem broadcastTx_no_available_connections_witness:
  "Map_get (connectionsAfter [SetOp ''wss://a'' exampleConnection]) ''wss://a'' = Some exampleConnection \<and>
   promise (broadcastTx (connectionsAfter [SetOp ''wss://a'' exampleConnection]) ''tx'') =
     Rejected noAvailableConnections \<and>
   invoked (broadcastTx (connectionsAfter [SetOp ''wss://a'' exampleConnection]) ''tx'') = []"
  using broadcastTx_no_available_connections [of "[SetOp ''wss://a'' exampleConnection]" "''tx''"]
  by (simp add: connectionsAfter_def Map_get_def Map_set_def new_Map_def)

text \<open>The script pubkey \<^verbatim>\<open>getFreshAddress\<close> resolves a path to: the stored one, or else the
  keymanager's; and the anchor index \<open>max(0, addressCount - gapLimit)\<close> of a branch.\<close>

definition scriptPubkeyAt :: "EngineConfig \<Rightarrow> Processor \<Rightarrow> AddressPath \<Rightarrow> string" where
  "scriptPubkeyAt cfg p pth =
     (case fetchScriptPubkeyByPath p pth of
        Some stored \<Rightarrow> stored
      | None \<Rightarrow> sp_scriptPubkey (getScriptPubkey (walletTools cfg) pth))"

definition anchorPath :: "EngineConfig \<Rightarrow> Processor \<Rightarrow> CurrencyFormat \<Rightarrow> int \<Rightarrow> AddressPath" where
  "anchorPath cfg p fmt chg =
     \<lparr> format = fmt, changeIndex = chg,
       addressIndex = max 0 (fetchAddressCountFromPathPartition p fmt chg
                               - gapLimit (currencyInfo cfg)) \<rparr>"

lemma getFreshAddress_anchor:
  "getFreshAddress cfg fmt chg False s =
     (if scriptPubkeyAt cfg (processor s) (anchorPath cfg (processor s) fmt chg) = []
      then (Inl UnknownAddressPath, s)
      else (Inr (scriptPubkeyToAddress (walletTools cfg)
                   (scriptPubkeyAt cfg (processor s) (anchorPath cfg (processor s) fmt chg)) fmt), s))"
  by (simp add: getFreshAddress_def getFreshIndex_def scriptPubkeyAt_def anchorPath_def Let_def
      max_def)

text \<open>C6: for a wallet whose purpose type is native Segwit, \<^verbatim>\<open>getFreshAddress\<close> returns
  as \<open>publicAddress\<close> the address of the wrapped-segwit format (bip49) and as
  \<open>segwitAddress\<close> the address of the native-segwit format (bip84), each of the script
  pubkey at the anchor index \<open>max(0, addressCount - gapLimit)\<close> of the requested branch
  of its format, whenever these two script pubkeys are not empty strings (an empty one
  raises "Unknown address path"). The store is left as it was.\<close>

theorem engine_getFreshAddress_segwit:
  assumes "walletPurpose cfg = Segwit"
    and "scriptPubkeyAt cfg (processor s)
           (anchorPath cfg (processor s) bip49 (if change = Some True then 1 else 0)) \<noteq> []"
    and "scriptPubkeyAt cfg (processor s)
           (anchorPath cfg (processor s) bip84 (if change = Some True then 1 else 0)) \<noteq> []"
  shows "engine_getFreshAddress cfg change s =
     (Inr \<lparr> publicAddress =
              res_address (scriptPubkeyToAddress (walletTools cfg)
                (scriptPubkeyAt cfg (processor s)
                   (anchorPath cfg (processor s) bip49 (if change = Some True then 1 else 0)))
                bip49),
            segwitAddress = Some
              (res_address (scriptPubkeyToAddress (walletTools cfg)
                (scriptPubkeyAt cfg (processor s)
                   (anchorPath cfg (processor s) bip84 (if change = Some True then 1 else 0)))
                bip84)),
            legacyAddress = None \<rparr>, s)"
  using assms
  by (simp add: engine_getFreshAddress_def getFreshAddress_anchor
      getCurrencyFormatFromPurposeType_def Let_def)

section \<open>A small keymanager and configuration for the instances\<close>

definition signChar :: "int \<Rightarrow> char" where
  "signChar k = (if k < 0 then CHR ''n'' else CHR ''p'')"

definition encodeInt :: "int \<Rightarrow> string" where
  "encodeInt k = signChar k # replicate (nat \<bar>k\<bar>) CHR ''1''"

definition toyScriptPubkey :: "AddressPath \<Rightarrow> string" where
  "toyScriptPubkey pth =
     (case format pth of bip32 \<Rightarrow> CHR ''a'' | bip44 \<Rightarrow> CHR ''b'' | bip49 \<Rightarrow> CHR ''c'' | bip84 \<Rightarrow> CHR ''d'')
       # encodeInt (changeIndex pth) @ encodeInt (addressIndex pth)"

definition toyTools :: UTXOPluginWalletTools where
  "toyTools =
     \<lparr> getScriptPubkey = (\<lambda>pth. \<lparr> sp_scriptPubkey = toyScriptPubkey pth, sp_redeemScript = None \<rparr>),
       addressToScriptPubkey = (\<lambda>a. tl a),
       scriptPubkeyToAddress = (\<lambda>sp fmt. \<lparr> res_address = CHR ''@'' # sp,
                                            res_legacyAddress = CHR ''@'' # sp \<rparr>) \<rparr>"

definition exampleConfig :: "BlockBook \<Rightarrow> int \<Rightarrow> EngineConfig" where
  "exampleConfig bb g =
     \<lparr> networkEnum = ''mainnet'',
       currencyInfo = exampleCurrencyInfo g,
       walletTools = toyTools,
       blockBook = bb,
       walletFormats = [bip49, bip84],
       walletPurpose = Segwit,
       bs_add = (\<lambda>a b. if b = ''0'' then a else if a = ''0'' then b else a @ ''+'' @ b),
       validScriptPubkeyFromAddress = (\<lambda>a coin net. case a of None \<Rightarrow> [] | Some x \<Rightarrow> tl x) \<rparr>"

definition offlineBlockBook :: BlockBook where
  "offlineBlockBook =
     \<lparr> bb_fetchAddress = (\<lambda>a. Inl (ExternalError ''offline'')),
       bb_fetchAddressTxs = (\<lambda>a from page. Inl (ExternalError ''offline'')),
       bb_fetchAddressUtxos = (\<lambda>a. Inl (ExternalError ''offline'')),
       bb_fetchTransaction = (\<lambda>txid. Inl (ExternalError ''offline'')) \<rparr>"

lemma replicate_separator:
  assumes "replicate a c @ x # xs = replicate b c @ y # ys" and "x \<noteq> c" and "y \<noteq> c"
  shows "a = b \<and> x = y \<and> xs = ys"
  using assms
proof (induction a arbitrary: b)
  case 0
  then show ?case by (cases b) auto
next
  case (Suc a)
  then show ?case by (cases b) auto
qed

lemma signChar_simps [simp]:
  "signChar k \<noteq> CHR ''1''"
  "(signChar k = signChar k') = ((k < 0) = (k' < 0))"
  by (simp_all add: signChar_def)

lemma int_of_sign_abs: "(k < 0) = (k' < 0) \<Longrightarrow> nat \<bar>k\<bar> = nat \<bar>k'\<bar> \<Longrightarrow> k = (k'::int)"
  by arith

lemma encodeInt_inject: "encodeInt k = encodeInt k' \<Longrightarrow> k = k'"
proof -
  assume e: "encodeInt k = encodeInt k'"
  then have s: "(k < 0) = (k' < 0)" by (simp add: encodeInt_def)
  from e have "length (encodeInt k) = length (encodeInt k')" by simp
  then have "nat \<bar>k\<bar> = nat \<bar>k'\<bar>" by (simp add: encodeInt_def)
  with s show ?thesis by (rule int_of_sign_abs)
qed

lemma encodeInt_append_inject:
  assumes "encodeInt c @ encodeInt i = encodeInt c' @ encodeInt i'"
  shows "c = c' \<and> i = i'"
proof -
  from assms
  have "signChar c # (replicate (nat \<bar>c\<bar>) CHR ''1'' @ signChar i # replicate (nat \<bar>i\<bar>) CHR ''1'') =
      signChar c' # (replicate (nat \<bar>c'\<bar>) CHR ''1'' @ signChar i' # replicate (nat \<bar>i'\<bar>) CHR ''1'')"
    by (simp only: encodeInt_def append_Cons)
  then have sc: "signChar c = signChar c'"
    and tl: "replicate (nat \<bar>c\<bar>) CHR ''1'' @ signChar i # replicate (nat \<bar>i\<bar>) CHR ''1'' =
      replicate (nat \<bar>c'\<bar>) CHR ''1'' @ signChar i' # replicate (nat \<bar>i'\<bar>) CHR ''1''"
    by (simp_all only: list.inject)
  from sc have s: "(c < 0) = (c' < 0)" by (simp only: signChar_simps)
  from replicate_separator [OF tl signChar_simps(1) signChar_simps(1)]
  have r: "nat \<bar>c\<bar> = nat \<bar>c'\<bar>" "signChar i = signChar i'"
    "replicate (nat \<bar>i\<bar>) CHR ''1'' = replicate (nat \<bar>i'\<bar>) CHR ''1''"
    by blast+
  from s r(1) have "c = c'" by (rule int_of_sign_abs)
  moreover from r(2,3) have "encodeInt i = encodeInt i'"
    unfolding encodeInt_def by (simp only:)
  then have "i = i'" by (rule encodeInt_inject)
  ultimately show ?thesis by (rule conjI)
qed

lemma toyScriptPubkey_inject: "toyScriptPubkey p = toyScriptPubkey q \<Longrightarrow> p = q"
proof -
  assume e: "toyScriptPubkey p = toyScriptPubkey q"
  then have f: "format p = format q"
    by (cases "format p"; cases "format q") (simp_all add: toyScriptPubkey_def)
  from e have "encodeInt (changeIndex p) @ encodeInt (addressIndex p) =
      encodeInt (changeIndex q) @ encodeInt (addressIndex q)"
    by (simp add: toyScriptPubkey_def)
  with encodeInt_append_inject have "changeIndex p = changeIndex q \<and> addressIndex p = addressIndex q"
    by blast
  with f show ?thesis by simp
qed

lemma toyScriptPubkey_eq [simp]: "(toyScriptPubkey p = toyScriptPubkey q) = (p = q)"
  using toyScriptPubkey_inject by blast

lemma toyScriptPubkey_nonempty [simp]: "toyScriptPubkey p \<noteq> []"
  by (simp add: toyScriptPubkey_def)

theorem engine_getFreshAddress_segwit_witness:
  "walletPurpose (exampleConfig offlineBlockBook 10) = Segwit \<and>
   engine_getFreshAddress (exampleConfig offlineBlockBook 10) (Some True) (initialState emptyProcessor) =
     (Inr \<lparr> publicAddress =
              CHR ''@'' # toyScriptPubkey \<lparr> format = bip49, changeIndex = 1, addressIndex = 0 \<rparr>,
            segwitAddress = Some
              (CHR ''@'' # toyScriptPubkey \<lparr> format = bip84, changeIndex = 1, addressIndex = 0 \<rparr>),
            legacyAddress = None \<rparr>, initialState emptyProcessor)"
proof -
  let ?cfg = "exampleConfig offlineBlockBook 10" and ?s = "initialState emptyProcessor"
  have p: "walletPurpose ?cfg = Segwit" by (simp add: exampleConfig_def)
  have a: "scriptPubkeyAt ?cfg (processor ?s) (anchorPath ?cfg (processor ?s) fmt 1) =
      toyScriptPubkey \<lparr> format = fmt, changeIndex = 1, addressIndex = 0 \<rparr>" for fmt
    by (simp add: scriptPubkeyAt_def anchorPath_def exampleConfig_def exampleCurrencyInfo_def
        toyTools_def initialState_def emptyProcessor_def fetchScriptPubkeyByPath_def
        fetchAddressCountFromPathPartition_def)
  from engine_getFreshAddress_segwit [of ?cfg ?s "Some True"] p a
  show ?thesis by (simp add: exampleConfig_def toyTools_def)
qed

section \<open>Transaction pages and the TXIDS_CHANGED event\<close>

text \<open>The \<open>{txid \<rightarrow> date}\<close> pairs of a page, and a map that contains exactly them: every
  entry of the map is a pair of the page, and every txid of the page is a key.\<close>

definition pagePairs :: "ITransaction list \<Rightarrow> (string \<times> int) set" where
  "pagePairs txs = (\<lambda>tx. (raw_txid tx, raw_blockTime tx)) ` set txs"

definition carriesPage :: "(string \<rightharpoonup> int) \<Rightarrow> ITransaction list \<Rightarrow> bool" where
  "carriesPage m txs = ({(k, d). m k = Some d} \<subseteq> pagePairs txs \<and> raw_txid ` set txs \<subseteq> dom m)"

text \<open>A stretch of the trace made of fetched pages only, where a page with transactions
  is followed at once by a TXIDS_CHANGED event that carries the pairs of that page, and
  a page without transactions by no event.\<close>

fun pagesTrace :: "Effect list \<Rightarrow> bool" where
  "pagesTrace [] = True"
| "pagesTrace (FetchedPage a p txs # Emit (TXIDS_CHANGED m) # rest) =
     (txs \<noteq> [] \<and> carriesPage m txs \<and> pagesTrace rest)"
| "pagesTrace (FetchedPage a p txs # rest) = (txs = [] \<and> pagesTrace rest)"
| "pagesTrace (e # rest) = False"

lemma pagesTrace_empty_page: "pagesTrace tr \<Longrightarrow> pagesTrace (FetchedPage a p [] # tr)"
  by (induction tr rule: pagesTrace.induct) simp_all

lemma saveTransactions_trace: "trace (snd (saveTransactions cfg txs m s)) = trace s"
  by (induction txs arbitrary: m s) (simp_all add: Let_def)

lemma saveTransactions_map:
  "fst (saveTransactions cfg txs m s) =
     fold (\<lambda>tx acc. acc(raw_txid tx \<mapsto> raw_blockTime tx)) txs m"
  by (induction txs arbitrary: m s) (simp_all add: Let_def processRawTx_def)

lemma fold_txid_map:
  "{(k, d). fold (\<lambda>tx acc. acc(raw_txid tx \<mapsto> raw_blockTime tx)) txs m k = Some d}
     \<subseteq> {(k, d). m k = Some d} \<union> pagePairs txs \<and>
   dom (fold (\<lambda>tx acc. acc(raw_txid tx \<mapsto> raw_blockTime tx)) txs m) = dom m \<union> raw_txid ` set txs"
proof (induction txs arbitrary: m)
  case Nil
  show ?case by (simp add: pagePairs_def)
next
  case (Cons tx txs)
  from Cons [of "m(raw_txid tx \<mapsto> raw_blockTime tx)"]
  show ?case by (auto simp: pagePairs_def split: if_splits)
qed

lemma saveTransactions_carriesPage:
  "carriesPage (fst (saveTransactions cfg txs Map.empty s)) txs"
  using fold_txid_map [of txs Map.empty]
  by (simp add: carriesPage_def saveTransactions_map)

text \<open>C5: a run of \<^verbatim>\<open>processAddressTransactions\<close> that returns (with a result or with an
  error of the indexer) has added to the trace, for every page it fetched and in the
  order of the pages, the page and then, if and only if the page has transactions, one
  TXIDS_CHANGED event whose map contains exactly the \<open>{txid \<rightarrow> date}\<close> pairs of that
  page.\<close>

theorem processAddressTransactions_pages:
  assumes "processAddressTransactions cfg addr page s = Some (r, s')"
  shows "\<exists>tr. trace s' = trace s @ tr \<and> pagesTrace tr"
proof -
  have "\<exists>tr. trace (snd y) = trace s @ tr \<and> pagesTrace tr"
    if run: "processAddressTransactions cfg addr page s = Some y" for y
  proof (induction cfg addr page s y rule: processAddressTransactions.raw_induct)
    case (1 rec cfg addr page s y)
    show ?case
    proof (cases "bb_fetchAddressTxs (blockBook cfg) addr
        (map_option networkQueryVal
           (fetchAddressByScriptPubkey (processor s) (addressToScriptPubkey (walletTools cfg) addr)))
        page")
      case (Inl e)
      with 1(2) have "y = (Inl e, s)" by simp
      then show ?thesis by simp
    next
      case (Inr response)
      define txs where "txs = (case page_transactions response of None \<Rightarrow> [] | Some l \<Rightarrow> l)"
      define s0 where "s0 = s\<lparr> trace := trace s @ [FetchedPage addr page txs] \<rparr>"
      define m where "m = fst (saveTransactions cfg txs Map.empty s0)"
      define s1 where "s1 = snd (saveTransactions cfg txs Map.empty s0)"
      define s2 where "s2 = (if length txs \<noteq> 0
          then s1\<lparr> trace := trace s1 @ [Emit (TXIDS_CHANGED m)] \<rparr> else s1)"
      define more where "more = (case page_totalPages response of
          None \<Rightarrow> False | Some totalPages \<Rightarrow> page < totalPages)"
      have st: "saveTransactions cfg txs Map.empty s0 = (m, s1)"
        by (simp add: m_def s1_def)
      from 1(2) Inr have y: "(if more then rec cfg addr (page + 1) s2 else Some (Inr (), s2)) = Some y"
        unfolding txs_def s0_def m_def s1_def s2_def more_def
        by (simp add: case_prod_beta)
      have cp: "carriesPage m txs"
        unfolding m_def by (rule saveTransactions_carriesPage)
      have t1: "trace s1 = trace s @ [FetchedPage addr page txs]"
        unfolding s1_def by (simp add: saveTransactions_trace s0_def)
      have t2: "\<exists>tr. trace s2 = trace s @ tr \<and> pagesTrace tr \<and>
          (\<forall>tr'. pagesTrace tr' \<longrightarrow> pagesTrace (tr @ tr'))"
      proof (cases "txs = []")
        case True
        with t1 have "trace s2 = trace s @ [FetchedPage addr page []]" by (simp add: s2_def)
        then show ?thesis by (auto simp: pagesTrace_empty_page)
      next
        case False
        with t1 have "trace s2 = trace s @ [FetchedPage addr page txs, Emit (TXIDS_CHANGED m)]"
          by (simp add: s2_def)
        with False cp show ?thesis by auto
      qed
      then obtain tr where tr: "trace s2 = trace s @ tr" "pagesTrace tr"
        "\<And>tr'. pagesTrace tr' \<Longrightarrow> pagesTrace (tr @ tr')" by blast
      show ?thesis
      proof (cases more)
        case True
        with y have "rec cfg addr (page + 1) s2 = Some y" by simp
        from 1(1) [OF this] obtain tr' where "trace (snd y) = trace s2 @ tr'" "pagesTrace tr'"
          by blast
        with tr have "trace (snd y) = trace s @ (tr @ tr')" "pagesTrace (tr @ tr')" by simp_all
        then show ?thesis by blast
      next
        case False
        with y have "y = (Inr (), s2)" by simp
        with tr show ?thesis by auto
      qed
    qed
  qed (fact run)
  from this [OF assms] show ?thesis by simp
qed

definition exampleTx :: ITransaction where
  "exampleTx =
     \<lparr> raw_txid = ''t1'', raw_hex = ''00'', raw_blockHeight = 100, raw_blockTime = 1600000000,
       raw_fees = ''10'', raw_vin = [], raw_vout = [] \<rparr>"

text \<open>An indexer with a history of two pages for every address: one transaction on the
  first page, none on the second.\<close>

definition twoPageBlockBook :: BlockBook where
  "twoPageBlockBook =
     offlineBlockBook\<lparr> bb_fetchAddressTxs := (\<lambda>a from page.
        if page = 1 then Inr \<lparr> page_transactions = Some [exampleTx], page_totalPages = Some 2 \<rparr>
        else Inr \<lparr> page_transactions = None, page_totalPages = Some 2 \<rparr>) \<rparr>"

lemma twoPage_run:
  "\<exists>s'. processAddressTransactions (exampleConfig twoPageBlockBook 10) ''@a'' 1
           (initialState emptyProcessor) = Some (Inr (), s') \<and>
        trace s' = [FetchedPage ''@a'' 1 [exampleTx],
                    Emit (TXIDS_CHANGED [''t1'' \<mapsto> 1600000000]),
                    FetchedPage ''@a'' 2 []]"
  apply (subst processAddressTransactions.simps)
  apply (simp add: exampleConfig_def twoPageBlockBook_def offlineBlockBook_def Let_def
      initialState_def processRawTx_def exampleTx_def)
  apply (subst processAddressTransactions.simps)
  apply (simp add: exampleConfig_def twoPageBlockBook_def offlineBlockBook_def Let_def
      initialState_def processRawTx_def exampleTx_def)
  done

theorem processAddressTransactions_pages_witness:
  "\<exists>s'. processAddressTransactions (exampleConfig twoPageBlockBook 10) ''@a'' 1
           (initialState emptyProcessor) = Some (Inr (), s') \<and>
        trace s' = [FetchedPage ''@a'' 1 [exampleTx],
                    Emit (TXIDS_CHANGED [''t1'' \<mapsto> 1600000000]),
                    FetchedPage ''@a'' 2 []] \<and>
        pagesTrace (trace s')"
proof -
  from twoPage_run obtain s' where
    run: "processAddressTransactions (exampleConfig twoPageBlockBook 10) ''@a'' 1
            (initialState emptyProcessor) = Some (Inr (), s')"
    and tr: "trace s' = [FetchedPage ''@a'' 1 [exampleTx],
                    Emit (TXIDS_CHANGED [''t1'' \<mapsto> 1600000000]),
                    FetchedPage ''@a'' 2 []]"
    by blast
  from processAddressTransactions_pages [OF run]
  have "pagesTrace (trace s')" by (simp add: initialState_def)
  with run tr show ?thesis by blast
qed

section \<open>Reconciliation of the UTXO set\<close>




























lemma utxoId_distinct [simp]: "utxoId ''t0'' n \<noteq> utxoId ''t1'' m" "utxoId ''t1'' n \<noteq> utxoId ''t0'' m"
  by (simp_all add: utxoId_def)








section \<open>The lookahead invariant\<close>

text \<open>
  The store agrees with the keymanager: a record is stored under its own script pubkey;
  a record with a path is stored under the script pubkey the keymanager derives for that
  path, and its index lies below the address count of its branch; and the path index
  points at records that carry that path. The empty store is consistent, and
  \<^verbatim>\<open>saveNewOrUpdateAddressPathIfNeeded\<close> keeps a store consistent.
\<close>

definition storeConsistent :: "UTXOPluginWalletTools \<Rightarrow> Processor \<Rightarrow> bool" where
  "storeConsistent tools p =
     ((\<forall>sp a. addressByScriptPubkey p sp = Some a \<longrightarrow>
         scriptPubkey a = sp \<and>
         (\<forall>pth. path a = Some pth \<longrightarrow>
            sp = sp_scriptPubkey (getScriptPubkey tools pth) \<and>
            addressIndex pth < addressCountByPartition p (format pth, changeIndex pth))) \<and>
      (\<forall>pth sp. scriptPubkeyByPath p pth = Some sp \<longrightarrow>
         (\<exists>a. addressByScriptPubkey p sp = Some a \<and> path a = Some pth)))"

text \<open>Two stores show the same branch: the same address count and the same outcome of
  every probe of a path of the branch.\<close>

definition sameBranch :: "Processor \<Rightarrow> Processor \<Rightarrow> CurrencyFormat \<Rightarrow> int \<Rightarrow> bool" where
  "sameBranch p p' fmt chg =
     (addressCountByPartition p' (fmt, chg) = addressCountByPartition p (fmt, chg) \<and>
      (\<forall>i. usedByPath p' \<lparr> format = fmt, changeIndex = chg, addressIndex = i \<rparr> =
            usedByPath p \<lparr> format = fmt, changeIndex = chg, addressIndex = i \<rparr>))"

lemma sameBranch_refl [simp]: "sameBranch p p fmt chg"
  by (simp add: sameBranch_def)







text \<open>A run that no other task interleaves with: the suspension points leave the state as
  it is.\<close>

lemma suspend_quiet: "others s = [] \<Longrightarrow> suspend s = s"
  by (simp add: suspend_def)

lemma suspend_trace [simp]: "trace (suspend s) = trace s"
  by (simp add: suspend_def split: list.splits)

lemma bump_others [simp]: "others (bump k s) = others s"
  by (simp add: bump_def)

lemma getFreshIndex_others: "others (snd (getFreshIndex ci fmt chg fl s)) = others s"
  using getFreshIndex_state [of ci fmt chg fl s] by auto






text \<open>The fresh index as the glossary of the spec has it, the lowest index of the branch
  that has not yet been used: the record at \<open>r\<close> is unused and no record below is. It
  is the index the contract of the fresh-index finder names, when there is one.\<close>

definition smallestUnused :: "(int \<Rightarrow> error + bool) \<Rightarrow> int \<Rightarrow> bool" where
  "smallestUnused u r = (0 \<le> r \<and> u r = Inr False \<and> (\<forall>j \<in> {0..<r}. u j \<noteq> Inr False))"





















text \<open>The second boundary scenario of the spec: a wrapped-segwit wallet with gap limit 5
  whose two branches hold the addresses of indices 0 to 4, the address of index 3 of
  branch 0 being used. A call of \<^verbatim>\<open>setLookAhead\<close> derives no further address: the scan
  starts at the anchor \<open>5 - 5 = 0\<close>, whose record is unused, and returns 0, the smallest
  unused index; the address count of the branch stays 5.\<close>

definition wrappedAddress :: "int \<Rightarrow> int \<Rightarrow> bool \<Rightarrow> IAddress" where
  "wrappedAddress chg i u =
     exampleAddress (toyScriptPubkey \<lparr> format = bip49, changeIndex = chg, addressIndex = i \<rparr>)
       bip49 chg i u"

definition scenarioStore :: Processor where
  "scenarioStore =
     fold (\<lambda>a p. saveAddress p a)
       [wrappedAddress 0 0 False, wrappedAddress 0 1 False, wrappedAddress 0 2 False,
        wrappedAddress 0 3 True, wrappedAddress 0 4 False,
        wrappedAddress 1 0 False, wrappedAddress 1 1 False, wrappedAddress 1 2 False,
        wrappedAddress 1 3 False, wrappedAddress 1 4 False]
       emptyProcessor"

lemma scenarioStore_branch:
  "fetchAddressCountFromPathPartition scenarioStore bip49 chg = (if chg = 0 \<or> chg = 1 then 5 else 0)"
  "usedAt scenarioStore \<lparr> format = bip49, changeIndex = 0, addressIndex = a \<rparr> 0 = Inr False"
  "usedAt scenarioStore \<lparr> format = bip49, changeIndex = 1, addressIndex = a \<rparr> 0 = Inr False"
  "usedAt scenarioStore \<lparr> format = bip49, changeIndex = 0, addressIndex = a \<rparr> 3 = Inr True"
  by (simp_all add: scenarioStore_def wrappedAddress_def exampleAddress_def
      fetchAddressCountFromPathPartition_def usedAt_def usedByPath_def fetchScriptPubkeyByPath_def
      fetchAddressByScriptPubkey_def saveAddress_def emptyProcessor_def Let_def)

lemma scenarioStore_fresh:
  assumes "processor s = scenarioStore" and "chg = 0 \<or> chg = 1"
  shows "getFreshIndex (exampleCurrencyInfo 5) bip49 chg True s = (Inr 0, bump 1 s)"
proof -
  from assms have "findFreshIndex \<lparr> format = bip49, changeIndex = chg, addressIndex = 0 \<rparr> s =
      (Inr 0, bump 1 s)"
    by (subst findFreshIndex_first) (auto simp: branchCount_def scenarioStore_branch)
  with assms show ?thesis
    by (auto simp: getFreshIndex_def scenarioStore_branch exampleCurrencyInfo_def)
qed

lemma scenario_branch:
  assumes p: "processor s = scenarioStore" and q: "others s = []" and chg: "chg = 0 \<or> chg = 1"
  shows "setLookAhead_branches (exampleConfig offlineBlockBook 5) bip49 True (chg # rest) s =
     setLookAhead_branches (exampleConfig offlineBlockBook 5) bip49 True rest (bump 1 s)"
proof -
  have ci: "currencyInfo (exampleConfig offlineBlockBook 5) = exampleCurrencyInfo 5"
    by (simp add: exampleConfig_def)
  have quiet: "suspend (bump 1 s) = bump 1 s"
    by (rule suspend_quiet) (simp add: q)
  have cnt: "fetchAddressCountFromPathPartition (processor (bump 1 s)) bip49 chg = 5"
    using chg by (auto simp: p scenarioStore_branch)
  have loop: "setLookAhead_loop (exampleConfig offlineBlockBook 5) bip49 True chg 5 0 (bump 1 s) =
      Some (Inr (), bump 1 s)"
    by (subst setLookAhead_loop.simps) (simp add: ci exampleCurrencyInfo_def)
  show ?thesis
    unfolding setLookAhead_branches.simps ci scenarioStore_fresh [OF p chg] prod.case sum.case
      quiet cnt loop option.case
    by (rule refl)
qed

lemma scenario_lookAhead:
  "\<exists>s'. setLookAhead (exampleConfig offlineBlockBook 5) bip49 True (initialState scenarioStore)
           = Some (Inr (), s') \<and>
        processor s' = scenarioStore \<and>
        fetchAddressCountFromPathPartition (processor s') bip49 0 = 5 \<and>
        fst (getFreshIndex (exampleCurrencyInfo 5) bip49 0 True s') = Inr 0 \<and>
        smallestUnused (usedAt (processor s') \<lparr> format = bip49, changeIndex = 0, addressIndex = 0 \<rparr>) 0"
proof -
  define s0 where "s0 = (initialState scenarioStore)\<lparr> trace := [SetLookAheadCalled bip49 True] \<rparr>"
  have p0: "processor s0 = scenarioStore" "others s0 = []"
    by (simp_all add: s0_def initialState_def)
  have start: "setLookAhead (exampleConfig offlineBlockBook 5) bip49 True (initialState scenarioStore) =
      setLookAhead_branches (exampleConfig offlineBlockBook 5) bip49 True [0, 1] s0"
    by (simp add: setLookAhead_def getFormatSupportedBranches_def currencyFormatToPurposeType_def
        s0_def initialState_def suspend_def)
  have "setLookAhead (exampleConfig offlineBlockBook 5) bip49 True (initialState scenarioStore) =
      Some (Inr (), bump 2 s0)"
  proof -
    have b0: "setLookAhead_branches (exampleConfig offlineBlockBook 5) bip49 True [0, 1] s0 =
        setLookAhead_branches (exampleConfig offlineBlockBook 5) bip49 True [1] (bump 1 s0)"
      by (rule scenario_branch) (simp_all add: p0)
    have b1: "setLookAhead_branches (exampleConfig offlineBlockBook 5) bip49 True [1] (bump 1 s0) =
        setLookAhead_branches (exampleConfig offlineBlockBook 5) bip49 True [] (bump 1 (bump 1 s0))"
      by (rule scenario_branch) (simp_all add: p0)
    show ?thesis unfolding start b0 b1 by (simp add: numeral_2_eq_2)
  qed
  moreover have "fst (getFreshIndex (exampleCurrencyInfo 5) bip49 0 True (bump 2 s0)) = Inr 0"
    using scenarioStore_fresh [of "bump 2 s0" 0] p0 by simp
  moreover have "smallestUnused
      (usedAt scenarioStore \<lparr> format = bip49, changeIndex = 0, addressIndex = 0 \<rparr>) 0"
    by (simp add: smallestUnused_def scenarioStore_branch)
  ultimately show ?thesis by (simp add: p0 scenarioStore_branch)
qed

section \<open>The lookahead trigger of the address processor\<close>

text \<open>The invocations of \<^verbatim>\<open>setLookAhead\<close> a piece of trace records, in order, each with
  its format and its \<open>processNewAddresses\<close> flag.\<close>

fun lookAheadCall :: "Effect \<Rightarrow> (CurrencyFormat \<times> bool) list" where
  "lookAheadCall (SetLookAheadCalled fmt processNewAddresses) = [(fmt, processNewAddresses)]"
| "lookAheadCall (Emit ev) = []"
| "lookAheadCall (FetchedPage addr page txs) = []"
| "lookAheadCall (WatchAddresses addrs) = []"
| "lookAheadCall (Dispatched addr) = []"

definition lookAheadCalls :: "Effect list \<Rightarrow> (CurrencyFormat \<times> bool) list" where
  "lookAheadCalls tr = concat (map lookAheadCall tr)"

lemma lookAheadCalls_simps [simp]:
  "lookAheadCalls [] = []"
  "lookAheadCalls (e # tr) = lookAheadCall e @ lookAheadCalls tr"
  "lookAheadCalls (tr @ tr') = lookAheadCalls tr @ lookAheadCalls tr'"
  by (simp_all add: lookAheadCalls_def)

lemma bump_trace [simp]: "trace (bump k s) = trace s"
  by (simp add: bump_def)





















text \<open>The writers outside the mutex keep the store consistent: an update of the balance
  and the used flag of a record, and the import of an address without a path.\<close>

lemma storeConsistent_updateAddress:
  assumes "storeConsistent tools p"
  shows "storeConsistent tools (updateAddressByScriptPubkey p sp newBalance newUsed)"
proof (cases "addressByScriptPubkey p sp")
  case None
  with assms show ?thesis by (simp add: updateAddressByScriptPubkey_def)
next
  case (Some a)
  define a' where "a' = a\<lparr> balance := (case newBalance of None \<Rightarrow> balance a | Some b \<Rightarrow> b),
      used := (case newUsed of None \<Rightarrow> used a | Some u \<Rightarrow> u) \<rparr>"
  have p': "updateAddressByScriptPubkey p sp newBalance newUsed =
      p\<lparr> addressByScriptPubkey := (addressByScriptPubkey p)(sp \<mapsto> a') \<rparr>"
    by (simp add: updateAddressByScriptPubkey_def Some a'_def)
  have a': "scriptPubkey a' = scriptPubkey a" "path a' = path a" by (simp_all add: a'_def)
  from assms have k: "\<And>k b. addressByScriptPubkey p k = Some b \<Longrightarrow> scriptPubkey b = k"
    and d: "\<And>k b q. addressByScriptPubkey p k = Some b \<Longrightarrow> path b = Some q \<Longrightarrow>
        k = sp_scriptPubkey (getScriptPubkey tools q) \<and>
        addressIndex q < addressCountByPartition p (format q, changeIndex q)"
    and i: "\<And>q k. scriptPubkeyByPath p q = Some k \<Longrightarrow>
        \<exists>b. addressByScriptPubkey p k = Some b \<and> path b = Some q"
    unfolding storeConsistent_def by blast+
  show ?thesis
    unfolding storeConsistent_def p'
  proof (intro conjI allI impI)
    fix k b
    assume "addressByScriptPubkey (p\<lparr> addressByScriptPubkey := (addressByScriptPubkey p)(sp \<mapsto> a') \<rparr>) k
        = Some b"
    then show "scriptPubkey b = k"
      using k Some a' by (auto split: if_splits)
  next
    fix k b q
    assume b: "addressByScriptPubkey (p\<lparr> addressByScriptPubkey := (addressByScriptPubkey p)(sp \<mapsto> a') \<rparr>) k
        = Some b" and q: "path b = Some q"
    then have "\<exists>c. addressByScriptPubkey p k = Some c \<and> path c = Some q"
      using Some a' by (auto split: if_splits)
    then obtain c where "addressByScriptPubkey p k = Some c" "path c = Some q" by blast
    from d [OF this]
    show "k = sp_scriptPubkey (getScriptPubkey tools q)"
      and "addressIndex q < addressCountByPartition
          (p\<lparr> addressByScriptPubkey := (addressByScriptPubkey p)(sp \<mapsto> a') \<rparr>)
          (format q, changeIndex q)"
      by simp_all
  next
    fix q k
    assume "scriptPubkeyByPath (p\<lparr> addressByScriptPubkey := (addressByScriptPubkey p)(sp \<mapsto> a') \<rparr>) q
        = Some k"
    then have "scriptPubkeyByPath p q = Some k" by simp
    from i [OF this] obtain b where "addressByScriptPubkey p k = Some b" "path b = Some q" by blast
    then show "\<exists>b. addressByScriptPubkey
          (p\<lparr> addressByScriptPubkey := (addressByScriptPubkey p)(sp \<mapsto> a') \<rparr>) k = Some b \<and>
        path b = Some q"
      using Some a' by auto
  qed
qed

lemma storeConsistent_suspend:
  assumes "storeConsistent tools (processor s)"
  shows "storeConsistent tools (processor (suspend s))"
proof -
  have "storeConsistent tools (fold applyStoreWrite ws p)" if "storeConsistent tools p" for ws p
    using that
    by (induction ws arbitrary: p)
      (simp_all add: applyStoreWrite_def storeConsistent_updateAddress split: StoreWrite.splits)
  with assms show ?thesis by (simp add: suspend_def split: list.splits)
qed

lemma storeConsistent_import:
  assumes "storeConsistent tools (processor s)" and "sp \<noteq> []"
  shows "storeConsistent tools
     (processor (snd (saveNewOrUpdateAddressPathIfNeeded tools None (Some sp) s)))"
proof (cases "addressByScriptPubkey (processor s) sp")
  case None
  define a where "a = \<lparr> scriptPubkey = sp, path = None, networkQueryVal = 0,
      lastQuery = 0, lastTouched = 0, used = False, balance = ''0'' \<rparr>"
  from None assms(2) have eq: "processor (snd (saveNewOrUpdateAddressPathIfNeeded tools None (Some sp) s)) =
      (processor s)\<lparr> addressByScriptPubkey := (addressByScriptPubkey (processor s))(sp \<mapsto> a) \<rparr>"
    by (simp add: saveNewOrUpdateAddressPathIfNeeded_def fetchAddressByScriptPubkey_def
        saveAddress_def a_def Let_def)
  from assms(1) None have free: "scriptPubkeyByPath (processor s) q \<noteq> Some sp" for q
    unfolding storeConsistent_def by (metis option.distinct(1))
  from assms(1) None free show ?thesis
    unfolding eq storeConsistent_def by (auto simp: a_def)
next
  case (Some b)
  from assms(1) Some have key: "scriptPubkey b = sp"
    unfolding storeConsistent_def by blast
  have "processor (snd (saveNewOrUpdateAddressPathIfNeeded tools None (Some sp) s)) = processor s"
  proof (cases "path b")
    case None
    then have "b\<lparr> path := None \<rparr> = b" by simp
    with Some None assms(2) key show ?thesis
      by (simp add: saveNewOrUpdateAddressPathIfNeeded_def fetchAddressByScriptPubkey_def
          saveAddress_def Let_def fun_upd_idem)
  next
    case (Some q)
    with \<open>addressByScriptPubkey (processor s) sp = Some b\<close> assms(2) show ?thesis
      by (simp add: saveNewOrUpdateAddressPathIfNeeded_def fetchAddressByScriptPubkey_def)
  qed
  with assms(1) show ?thesis by simp
qed

end
